theory Spec2Isabelle
  imports Main "HOL-Library.Word" "HOL-Library.Sublist" "HOL-Library.AList"
begin

section \<open>Data model of package clone\<close>

text \<open>
  Go's \<open>int64\<close> and \<open>uint64\<close> are 64-bit words; the conversion \<open>uint64(x)\<close> keeps the
  bits, so both are the same word type and only the comparison used (signed through
  \<open>sint\<close>, unsigned through the word order) tells them apart. A byte slice is a list of
  8-bit words.
\<close>

type_synonym int64 = "64 word"
type_synonym uint64 = "64 word"
type_synonym bytes = "8 word list"

text \<open>
  Modelled from the spec: the declaration of \<open>Table\<close> is not among the source files. The
  spec's data model describes the descriptor, and the record has the fields the code reads (\<open>table.Name\<close>, \<open>table.ColumnList\<close>, \<open>table.IDColumn\<close>,
  \<open>table.IDColumnIndex\<close>, \<open>table.ShardingColumnIndex\<close>). A \<open>*Table\<close> is modelled by the
  descriptor it points to.
\<close>

record Table =
  Name :: string
  ColumnList :: string
  IDColumn :: string
  IDColumnIndex :: nat
  ShardingColumnIndex :: nat

text \<open>A scanned column value (\<open>interface{}\<close> in \<open>Row.Data\<close>).\<close>

datatype cell = CInt int64 | CBytes bytes | CNull

text \<open>\<open>type Row struct\<close> of part_000 (the one with a \<open>ShardingID\<close>).\<close>

record Row =
  Table :: Table
  ID :: int64
  ShardingID :: int64
  Data :: "cell list"

text \<open>
  Errors. \<open>errors.WithStack\<close> wraps an error and keeps it reachable for \<open>errors.Is\<close>;
  \<open>errors.WithStack(nil)\<close> is \<open>nil\<close>. A possibly-nil \<open>error\<close> is an \<open>error option\<close>.
\<close>

datatype error = Canceled | DeadlineExceeded | Failure string | WithStack error

fun errors_Is :: "error \<Rightarrow> error \<Rightarrow> bool" where
  "errors_Is (WithStack e) target = (WithStack e = target \<or> errors_Is e target)"
| "errors_Is e target = (e = target)"

definition errors_WithStack :: "error option \<Rightarrow> error option" where
  "errors_WithStack err = (case err of None \<Rightarrow> None | Some e \<Rightarrow> Some (WithStack e))"

section \<open>Row streams and the shard gate (part_000)\<close>

text \<open>
  A \<open>RowStream\<close> is an object whose \<open>Next\<close> returns the next row, \<open>nil\<close> when done, or an
  error. Its state is the list of results its remaining \<open>Next\<close> calls will give; an
  exhausted stream keeps answering \<open>(nil, nil)\<close>.
\<close>

type_synonym RowStream = "(error + Row) list"

fun source_Next :: "RowStream \<Rightarrow> (error + Row option) \<times> RowStream" where
  "source_Next [] = (Inr None, [])"
| "source_Next (Inl err # s) = (Inl err, s)"
| "source_Next (Inr row # s) = (Inr (Some row), s)"

text \<open>\<open>topodata.KeyRange\<close>: two byte strings. A \<open>*KeyRange\<close> may be \<open>nil\<close>.\<close>

record KeyRange =
  Start :: bytes
  End :: bytes

text \<open>\<open>bytes.Compare\<close>: lexicographic order on unsigned bytes, as \<open>-1\<close>, \<open>0\<close> or \<open>1\<close>.\<close>

fun bytes_Compare :: "bytes \<Rightarrow> bytes \<Rightarrow> int" where
  "bytes_Compare [] [] = 0"
| "bytes_Compare [] (b # bs) = - 1"
| "bytes_Compare (a # as) [] = 1"
| "bytes_Compare (a # as) (b # bs) =
     (if a < b then - 1 else if b < a then 1 else bytes_Compare as bs)"

text \<open>
  Modelled from the spec: \<open>key.KeyRangeContains\<close> belongs to the Vitess library and is not
  among the source files. The spec gives its rule: half-open containment, inclusive start
  and exclusive end, where the interval with empty bounds contains everything. An empty
  \<open>End\<close> is therefore no upper bound, an empty \<open>Start\<close> is below every key, and a \<open>nil\<close>
  range is the whole keyspace.
\<close>

definition KeyRangeContains :: "KeyRange option \<Rightarrow> bytes \<Rightarrow> bool" where
  "KeyRangeContains kr ksid =
     (case kr of
        None \<Rightarrow> True
      | Some r \<Rightarrow>
          bytes_Compare (Start r) ksid \<le> 0 \<and> (End r = [] \<or> bytes_Compare ksid (End r) < 0))"

text \<open>
  \<open>InShard\<close>. The hash \<open>vhash\<close> of this package is not among the source files; it is a
  parameter. \<open>key.DestinationKeyspaceID\<close> is a conversion of the byte slice.
\<close>

fun InShard :: "(uint64 \<Rightarrow> bytes) \<Rightarrow> uint64 \<Rightarrow> KeyRange option list \<Rightarrow> bool" where
  "InShard vhash ident [] = False"
| "InShard vhash ident (keyRange # shard) =
     (if KeyRangeContains keyRange (vhash ident) then True else InShard vhash ident shard)"

record rejectStream =
  source :: RowStream
  reject :: "Row \<Rightarrow> error + bool"

definition newRejectStream :: "RowStream \<Rightarrow> (Row \<Rightarrow> error + bool) \<Rightarrow> rejectStream" where
  "newRejectStream stream rejectfn = \<lparr>source = stream, reject = rejectfn\<rparr>"

text \<open>
  \<open>rejectStream.Next\<close>: the loop reads the source until it fails, ends, or gives a row that
  is not rejected. Each turn consumes one result of the source.
\<close>

function rejectStream_Next :: "rejectStream \<Rightarrow> (error + Row option) \<times> rejectStream" where
  "rejectStream_Next f =
     (case source_Next (source f) of
        (Inl err, s) \<Rightarrow> (Inl (WithStack err), f\<lparr>source := s\<rparr>)
      | (Inr None, s) \<Rightarrow> (Inr None, f\<lparr>source := s\<rparr>)
      | (Inr (Some next), s) \<Rightarrow>
          (case reject f next of
             Inl err \<Rightarrow> (Inl (WithStack err), f\<lparr>source := s\<rparr>)
           | Inr rej \<Rightarrow>
               if \<not> rej then (Inr (Some next), f\<lparr>source := s\<rparr>)
               else rejectStream_Next (f\<lparr>source := s\<rparr>)))"
  by pat_completeness auto

lemma source_Next_shorter:
  "source_Next s = (Inr (Some row), s') \<Longrightarrow> length s' < length s"
  by (cases s rule: source_Next.cases) auto

termination rejectStream_Next
  by (relation "measure (\<lambda>f. length (source f))") (auto dest: source_Next_shorter [OF sym])

declare rejectStream_Next.simps [simp del]

definition filterStreamByShard ::
  "(uint64 \<Rightarrow> bytes) \<Rightarrow> RowStream \<Rightarrow> Table \<Rightarrow> KeyRange option list \<Rightarrow> rejectStream" where
  "filterStreamByShard vhash stream table targetFilter =
     newRejectStream stream (\<lambda>row. Inr (\<not> InShard vhash (ShardingID row) targetFilter))"

text \<open>
  What a consumer sees of a stream: the rows of its successive \<open>Next\<close> calls up to the first
  \<open>nil\<close> or error, and that error if there is one.
\<close>

function source_rows :: "RowStream \<Rightarrow> Row list \<times> error option" where
  "source_rows s =
     (case source_Next s of
        (Inl err, s') \<Rightarrow> ([], Some err)
      | (Inr None, s') \<Rightarrow> ([], None)
      | (Inr (Some row), s') \<Rightarrow> (case source_rows s' of (rows, e) \<Rightarrow> (row # rows, e)))"
  by pat_completeness auto

termination source_rows
  by (relation "measure length") (auto dest: source_Next_shorter [OF sym])

lemma rejectStream_Next_Nil:
  "source f = [] \<Longrightarrow> rejectStream_Next f = (Inr None, f\<lparr>source := []\<rparr>)"
  by (subst rejectStream_Next.simps) simp

lemma rejectStream_Next_Inl:
  "source f = Inl err # s \<Longrightarrow> rejectStream_Next f = (Inl (WithStack err), f\<lparr>source := s\<rparr>)"
  by (subst rejectStream_Next.simps) simp

lemma rejectStream_Next_Inr:
  "source f = Inr row # s \<Longrightarrow>
   rejectStream_Next f =
     (case reject f row of
        Inl err \<Rightarrow> (Inl (WithStack err), f\<lparr>source := s\<rparr>)
      | Inr rej \<Rightarrow>
          if \<not> rej then (Inr (Some row), f\<lparr>source := s\<rparr>)
          else rejectStream_Next (f\<lparr>source := s\<rparr>))"
  by (subst rejectStream_Next.simps) simp

lemma rejectStream_Next_shorter_aux:
  "source f = s \<Longrightarrow> rejectStream_Next f = (Inr (Some row), f') \<Longrightarrow>
   length (source f') < length s"
proof (induction s arbitrary: f)
  case Nil
  then show ?case by (simp add: rejectStream_Next_Nil)
next
  case (Cons x s)
  show ?case
  proof (cases x)
    case (Inl err)
    with Cons.prems show ?thesis by (simp add: rejectStream_Next_Inl)
  next
    case (Inr r)
    with Cons.prems Cons.IH [of "f\<lparr>source := s\<rparr>"] show ?thesis
      by (auto simp: rejectStream_Next_Inr split: sum.splits if_splits)
  qed
qed

lemma rejectStream_Next_shorter:
  "rejectStream_Next f = (Inr (Some row), f') \<Longrightarrow> length (source f') < length (source f)"
  by (rule rejectStream_Next_shorter_aux [OF refl])

function rejectStream_rows :: "rejectStream \<Rightarrow> Row list \<times> error option" where
  "rejectStream_rows f =
     (case rejectStream_Next f of
        (Inl err, f') \<Rightarrow> ([], Some err)
      | (Inr None, f') \<Rightarrow> ([], None)
      | (Inr (Some row), f') \<Rightarrow> (case rejectStream_rows f' of (rows, e) \<Rightarrow> (row # rows, e)))"
  by pat_completeness auto

termination rejectStream_rows
  by (relation "measure (\<lambda>f. length (source f))") (auto dest: rejectStream_Next_shorter [OF sym])

section \<open>Chunks and the statements that read them\<close>

text \<open>
  Modelled from the spec: the declaration of \<open>Chunk\<close> is not among the source files. The
  spec's data model describes it as a range with two flags, and the record has the fields
  the code reads. \<open>Start\<close> and \<open>End\<close> are primary keys (\<open>%d\<close> in part_001, an \<open>int64\<close>
  column), compared as signed numbers by the database.
\<close>

record Chunk =
  Table :: Table
  Start :: int64
  End :: int64
  First :: bool
  Last :: bool

text \<open>
  One conjunct of a \<open>where\<close> clause: the extra clause handed in by the caller, or a
  comparison of the id column with a bound. The code builds these conjuncts as strings;
  the model keeps their shape, so that a statement can be asked which ids it selects, and
  renders them to the strings of the code.
\<close>

datatype clause = Raw string | Lt string int64 | Ge string int64

text \<open>\<open>%d\<close> of an \<open>int64\<close>: decimal digits with a minus sign for a negative number.\<close>

function fmt_nat :: "nat \<Rightarrow> string" where
  "fmt_nat n = (if n < 10 then [''0123456789'' ! n]
                else fmt_nat (n div 10) @ [''0123456789'' ! (n mod 10)])"
  by pat_completeness auto

termination fmt_nat
  by (relation "measure (\<lambda>n. n)") auto

declare fmt_nat.simps [simp del]

definition fmt_d :: "int64 \<Rightarrow> string" where
  "fmt_d v = (if sint v < 0 then ''-'' @ fmt_nat (nat (- sint v)) else fmt_nat (nat (sint v)))"

fun strings_Join :: "string list \<Rightarrow> string \<Rightarrow> string" where
  "strings_Join [] sep = []"
| "strings_Join [x] sep = x"
| "strings_Join (x # y # xs) sep = x @ sep @ strings_Join (y # xs) sep"

text \<open>The conjunct as part_001 writes it, with the bound printed into the text.\<close>

fun render :: "clause \<Rightarrow> string" where
  "render (Raw extraWhereClause) = ''('' @ extraWhereClause @ '')''"
| "render (Lt column bound) = column @ '' < '' @ fmt_d bound"
| "render (Ge column bound) = column @ '' >= '' @ fmt_d bound"

text \<open>The conjunct as part_000 writes it, with a placeholder, and the argument bound to it.\<close>

fun render_placeholder :: "clause \<Rightarrow> string" where
  "render_placeholder (Raw extraWhereClause) = ''('' @ extraWhereClause @ '')''"
| "render_placeholder (Lt column bound) = column @ '' < ?''"
| "render_placeholder (Ge column bound) = column @ '' >= ?''"

fun clause_args :: "clause \<Rightarrow> int64 list" where
  "clause_args (Raw extraWhereClause) = []"
| "clause_args (Lt column bound) = [bound]"
| "clause_args (Ge column bound) = [bound]"

text \<open>
  Whether the primary-key comparison of a conjunct holds of an id. The extra clause is not
  a primary-key predicate and is the same for every chunk; it holds of every id here.
\<close>

fun clause_holds :: "clause \<Rightarrow> int64 \<Rightarrow> bool" where
  "clause_holds (Raw extraWhereClause) ident = True"
| "clause_holds (Lt column bound) ident = (sint ident < sint bound)"
| "clause_holds (Ge column bound) ident = (sint bound \<le> sint ident)"

text \<open>\<open>chunkWhere\<close> of part_001: the list \<open>clauses\<close> it builds, then the text it returns.\<close>

definition chunkWhere_clauses :: "Chunk \<Rightarrow> string \<Rightarrow> clause list" where
  "chunkWhere_clauses chunk extraWhereClause =
     (let table = Table chunk;
          clauses = (if extraWhereClause \<noteq> [] then [Raw extraWhereClause] else [])
      in if First chunk \<and> Last chunk then clauses
         else if First chunk then clauses @ [Lt (IDColumn table) (End chunk)]
         else if Last chunk then clauses @ [Ge (IDColumn table) (Start chunk)]
         else clauses @ [Ge (IDColumn table) (Start chunk), Lt (IDColumn table) (End chunk)])"

definition chunkWhere :: "Chunk \<Rightarrow> string \<Rightarrow> string" where
  "chunkWhere chunk extraWhereClause =
     (let clauses = map render (chunkWhere_clauses chunk extraWhereClause)
      in if length clauses = 0 then []
         else ''where '' @ strings_Join clauses '' and '')"

text \<open>
  \<open>StreamChunk\<close> of part_001: the statement it sends to the database. The rows come from
  the database; the model stops at the statement.
\<close>

definition StreamChunk_part_001 :: "Chunk \<Rightarrow> string \<Rightarrow> string \<Rightarrow> string" where
  "StreamChunk_part_001 chunk hint extraWhereClause =
     (let table = Table chunk;
          columns = ColumnList table;
          whereClause = chunkWhere chunk extraWhereClause
      in ''select '' @ columns @ '' '' @ hint @ '' from '' @ Name table @ '' '' @ whereClause
           @ '' order by '' @ IDColumn table @ '' asc'')"

text \<open>
  \<open>StreamChunk\<close> of part_000: the statement and its arguments. It tests \<open>chunk.First\<close>
  first, then \<open>chunk.Last\<close>; there is no branch for a chunk with both flags.
\<close>

record Query =
  conjuncts :: "clause list"
  statement :: string
  args :: "int64 list"

definition QueryContext :: "Table \<Rightarrow> clause list \<Rightarrow> Query" where
  "QueryContext table cs =
     \<lparr>conjuncts = cs,
      statement = ''select '' @ ColumnList table @ '' from '' @ Name table @ '' where ''
               @ strings_Join (map render_placeholder cs) '' and ''
               @ '' order by '' @ IDColumn table @ '' asc'',
      args = concat (map clause_args cs)\<rparr>"

definition StreamChunk_part_000 :: "Chunk \<Rightarrow> Query" where
  "StreamChunk_part_000 chunk =
     (let table = Table chunk
      in if First chunk then QueryContext table [Lt (IDColumn table) (End chunk)]
         else if Last chunk then QueryContext table [Ge (IDColumn table) (Start chunk)]
         else QueryContext table [Ge (IDColumn table) (Start chunk), Lt (IDColumn table) (End chunk)])"

text \<open>The ids a list of conjuncts selects: every primary-key comparison holds.\<close>

definition selects :: "clause list \<Rightarrow> int64 \<Rightarrow> bool" where
  "selects cs ident = list_all (\<lambda>c. clause_holds c ident) cs"

text \<open>
  A sequence of chunks of one table whose consecutive chunks share boundaries: a first
  chunk with \<open>First\<close> set, interior chunks with no flag, and a last chunk with \<open>Last\<close> set,
  each starting where the one before ends.
\<close>

fun chunks_from :: "int64 \<Rightarrow> Chunk list \<Rightarrow> bool" where
  "chunks_from e [] = False"
| "chunks_from e [c] = (\<not> First c \<and> Last c \<and> Start c = e)"
| "chunks_from e (c # d # cs) =
     (\<not> First c \<and> \<not> Last c \<and> Start c = e \<and> chunks_from (End c) (d # cs))"

fun shared_boundaries :: "Chunk list \<Rightarrow> bool" where
  "shared_boundaries [] = False"
| "shared_boundaries (c # cs) = (First c \<and> \<not> Last c \<and> chunks_from (End c) cs)"

text \<open>The boundaries \<open>E1, ..., En\<close> of such a sequence, as numbers.\<close>

definition boundaries :: "Chunk list \<Rightarrow> int list" where
  "boundaries cs = map (\<lambda>c. sint (End c)) (butlast cs)"


text \<open>The table of the spec's scenarios.\<close>

definition customers :: Table where
  "customers = \<lparr>Name = ''customers'', ColumnList = ''id, name'', IDColumn = ''id'',
                 IDColumnIndex = 0, ShardingColumnIndex = 0\<rparr>"

text \<open>A row of \<open>customers\<close> with the given id.\<close>

definition customer :: "int64 \<Rightarrow> Row" where
  "customer i = \<lparr>Row.Table = customers, ID = i, ShardingID = i, Data = [CInt i]\<rparr>"

section \<open>Batches, channels and the counter\<close>

text \<open>
  Modelled from the spec: the declarations of \<open>DiffType\<close> and \<open>Diff\<close> are not among the
  source files. The spec's data model gives a diff as one of insert, update and delete,
  carrying the row to apply; the code reads \<open>diff.Type\<close> and \<open>diff.Row\<close>.
\<close>

datatype DiffType = Insert | Update | Delete

record Diff =
  Type :: DiffType
  Row :: Row

text \<open>\<open>type Batch struct\<close> of batcher.go.\<close>

record Batch =
  Type :: DiffType
  Table :: Table
  Rows :: "Row list"

text \<open>
  What has happened to a channel: the values sent on it, in order, and how often it was
  closed. A send is taken to go through; the capacity of the channel (\<open>QueueSize\<close>) and a
  sender that waits for room are not modelled.
\<close>

record 'a chan =
  sent :: "'a list"
  closes :: nat

definition chan_send :: "'a \<Rightarrow> 'a chan \<Rightarrow> 'a chan" where
  "chan_send v c = c\<lparr>sent := sent c @ [v]\<rparr>"

definition chan_close :: "'a chan \<Rightarrow> 'a chan" where
  "chan_close c = c\<lparr>closes := Suc (closes c)\<rparr>"

text \<open>
  One turn of a \<open>select\<close> over an input channel and \<open>ctx.Done()\<close>: a value is received,
  the channel is found closed, or the context is found cancelled. A task is given the list
  of its turns; when the list ends the task waits in the \<open>select\<close> for ever.
\<close>

datatype 'a recv = Recv 'a | Closed | Done

text \<open>How a task ends: it never returns, it panics, or it returns a value.\<close>

datatype 'a outcome = Blocks | Panics | Returns 'a

text \<open>A line of the log: its level and its message, or the error it reports.\<close>

datatype log_entry = Infof string | Errorf error

text \<open>
  The state the tasks of one \<open>processTable\<close> call share: the counter vector
  \<open>writes_enqueued\<close>, by table name and type, the three channels, the log, and the local
  counts \<open>chunkCount\<close>, \<open>updates\<close>, \<open>deletes\<close> and \<open>inserts\<close>. A counter is only ever
  increased by numbers of rows, so it is a natural number here.

  reader.go and batcher.go each declare a package-level variable \<open>writesEnqueued\<close> for the
  metric \<open>writes_enqueued\<close>, so the two files as they stand are not one build. Each file
  is read with its own variable: \<open>writesEnqueued_reader\<close> is the one the writer task of
  reader.go adds to, \<open>writesEnqueued_batcher\<close> the one \<open>enqueueBatch\<close> of batcher.go adds to.
\<close>

record world =
  writesEnqueued_reader :: "string \<times> DiffType \<Rightarrow> nat"
  writesEnqueued_batcher :: "string \<times> DiffType \<Rightarrow> nat"
  chunks :: "Chunk chan"
  diffs :: "Diff chan"
  batches :: "Batch chan"
  logs :: "log_entry list"
  chunkCount :: nat
  updates :: nat
  deletes :: nat
  inserts :: nat

definition world0 :: world where
  "world0 = \<lparr>writesEnqueued_reader = (\<lambda>l. 0),
             writesEnqueued_batcher = (\<lambda>l. 0),
             chunks = \<lparr>sent = [], closes = 0\<rparr>,
             diffs = \<lparr>sent = [], closes = 0\<rparr>,
             batches = \<lparr>sent = [], closes = 0\<rparr>,
             logs = [], chunkCount = 0, updates = 0, deletes = 0, inserts = 0\<rparr>"

text \<open>
  \<open>WithLabelValues(batch.Table.Name, string(batch.Type))\<close>: the label of a batch, and
  \<open>Add\<close> on the counter of a label.
\<close>

definition batch_label :: "Batch \<Rightarrow> string \<times> DiffType" where
  "batch_label batch = (Name (Batch.Table batch), Batch.Type batch)"

definition counter_Add ::
  "string \<times> DiffType \<Rightarrow> nat \<Rightarrow> (string \<times> DiffType \<Rightarrow> nat) \<Rightarrow> (string \<times> DiffType \<Rightarrow> nat)" where
  "counter_Add l n counter = counter(l := counter l + n)"

definition enqueueBatch :: "Batch \<Rightarrow> world \<Rightarrow> world" where
  "enqueueBatch batch w =
     (let w = w\<lparr>writesEnqueued_batcher :=
                  counter_Add (batch_label batch) (length (Rows batch)) (writesEnqueued_batcher w)\<rparr>
      in w\<lparr>batches := chan_send batch (batches w)\<rparr>)"

text \<open>
  A Go map is an association list with one entry per key. \<open>range\<close> visits every entry
  once, in an order the runtime chooses: the keys listed in \<open>order\<close> first, in that order,
  then the others.
\<close>

definition map_range :: "'k list \<Rightarrow> ('k \<times> 'v) list \<Rightarrow> ('k \<times> 'v) list" where
  "map_range order m =
     concat (map (\<lambda>k. filter (\<lambda>e. fst e = k) m) (remdups order))
       @ filter (\<lambda>e. fst e \<notin> set order) m"

text \<open>
  The lines both batchers share: append the row, and when the batch has reached
  \<open>batchSize\<close> send it and clear it.
\<close>

definition append_row :: "int \<Rightarrow> Batch \<Rightarrow> Diff \<Rightarrow> world \<Rightarrow> Batch \<times> world" where
  "append_row batchSize batch diff w =
     (let batch = batch\<lparr>Rows := Rows batch @ [Row diff]\<rparr>
      in if int (length (Rows batch)) \<ge> batchSize
         then (batch\<lparr>Rows := []\<rparr>, enqueueBatch batch w)
         else (batch, w))"

text \<open>\<open>Write the final unfilled batches\<close>: the loop over the batches of one map.\<close>

fun flush :: "('k \<times> Batch) list \<Rightarrow> world \<Rightarrow> world" where
  "flush [] w = w"
| "flush ((k, batch) # rest) w =
     flush rest (if length (Rows batch) > 0 then enqueueBatch batch w else w)"

text \<open>
  \<open>BatchTableWrites\<close>. \<open>order\<close> is the order in which the final \<open>range\<close> visits the map,
  \<open>batchesByType\<close> the map, and the list the turns of the \<open>select\<close>.
\<close>

fun BatchTableWrites_loop ::
  "int \<Rightarrow> DiffType list \<Rightarrow> (DiffType \<times> Batch) list \<Rightarrow> Diff recv list \<Rightarrow> world
   \<Rightarrow> error option outcome \<times> world" where
  "BatchTableWrites_loop batchSize order batchesByType [] w = (Blocks, w)"
| "BatchTableWrites_loop batchSize order batchesByType (Closed # turns) w =
     (Returns None, flush (map_range order batchesByType) w)"
| "BatchTableWrites_loop batchSize order batchesByType (Done # turns) w = (Returns None, w)"
| "BatchTableWrites_loop batchSize order batchesByType (Recv diff # turns) w =
     (let batch = (case map_of batchesByType (Diff.Type diff) of
                     None \<Rightarrow> \<lparr>Type = Diff.Type diff, Table = Row.Table (Row diff), Rows = []\<rparr>
                   | Some batch \<Rightarrow> batch);
          (batch, w) = append_row batchSize batch diff w
      in BatchTableWrites_loop batchSize order
           (AList.update (Diff.Type diff) batch batchesByType) turns w)"

definition BatchTableWrites ::
  "int \<Rightarrow> DiffType list \<Rightarrow> Diff recv list \<Rightarrow> world \<Rightarrow> error option outcome \<times> world" where
  "BatchTableWrites batchSize order turns w = BatchTableWrites_loop batchSize order [] turns w"

text \<open>
  \<open>BatchWrites\<close>: a map by type of maps by table name. The inner map is shared with the
  outer one, so storing the batch in it changes the outer map's entry. Both ways out of
  the loop, the closed channel and the cancelled context, go on to the final batches and
  to \<open>close(batches)\<close>. \<open>order\<close> and \<open>orderByType\<close> are the orders of the two \<open>range\<close> loops.
\<close>

fun flush_tables ::
  "(DiffType \<Rightarrow> string list) \<Rightarrow> (DiffType \<times> (string \<times> Batch) list) list \<Rightarrow> world \<Rightarrow> world" where
  "flush_tables orderByType [] w = w"
| "flush_tables orderByType ((t, batchesByTable) # rest) w =
     flush_tables orderByType rest (flush (map_range (orderByType t) batchesByTable) w)"

definition BatchWrites_finish ::
  "DiffType list \<Rightarrow> (DiffType \<Rightarrow> string list) \<Rightarrow> (DiffType \<times> (string \<times> Batch) list) list
   \<Rightarrow> world \<Rightarrow> error option outcome \<times> world" where
  "BatchWrites_finish order orderByType batchesByType w =
     (let w = flush_tables orderByType (map_range order batchesByType) w
      in (Returns None, w\<lparr>batches := chan_close (batches w)\<rparr>))"

fun BatchWrites_loop ::
  "int \<Rightarrow> DiffType list \<Rightarrow> (DiffType \<Rightarrow> string list) \<Rightarrow> (DiffType \<times> (string \<times> Batch) list) list
   \<Rightarrow> Diff recv list \<Rightarrow> world \<Rightarrow> error option outcome \<times> world" where
  "BatchWrites_loop batchSize order orderByType batchesByType [] w = (Blocks, w)"
| "BatchWrites_loop batchSize order orderByType batchesByType (Closed # turns) w =
     BatchWrites_finish order orderByType batchesByType w"
| "BatchWrites_loop batchSize order orderByType batchesByType (Done # turns) w =
     BatchWrites_finish order orderByType batchesByType w"
| "BatchWrites_loop batchSize order orderByType batchesByType (Recv diff # turns) w =
     (let batchesByTable = (case map_of batchesByType (Diff.Type diff) of
                              None \<Rightarrow> []
                            | Some batchesByTable \<Rightarrow> batchesByTable);
          batch = (case map_of batchesByTable (Name (Row.Table (Row diff))) of
                     None \<Rightarrow> \<lparr>Type = Diff.Type diff, Table = Row.Table (Row diff), Rows = []\<rparr>
                   | Some batch \<Rightarrow> batch);
          (batch, w) = append_row batchSize batch diff w;
          batchesByTable = AList.update (Name (Row.Table (Row diff))) batch batchesByTable
      in BatchWrites_loop batchSize order orderByType
           (AList.update (Diff.Type diff) batchesByTable batchesByType) turns w)"

definition BatchWrites ::
  "int \<Rightarrow> DiffType list \<Rightarrow> (DiffType \<Rightarrow> string list) \<Rightarrow> Diff recv list \<Rightarrow> world
   \<Rightarrow> error option outcome \<times> world" where
  "BatchWrites batchSize order orderByType turns w =
     BatchWrites_loop batchSize order orderByType [] turns w"

text \<open>The diffs a task has received: those of its turns before the first other turn.\<close>

fun received :: "'a recv list \<Rightarrow> 'a list" where
  "received (Recv v # turns) = v # received turns"
| "received turns = []"

section \<open>The table pipeline of reader.go\<close>

text \<open>
  Modelled from the spec: the declaration of \<open>Clone\<close> is not among the source files. The
  spec's configuration table lists the options the code reads from \<open>cmd\<close>; the two
  timeouts are durations in nanoseconds.
\<close>

record Clone =
  QueueSize :: int
  ChunkSize :: int
  WriteBatchSize :: int
  ChunkingTimeout :: int
  ReadTimeout :: int

text \<open>
  \<open>semaphore.Weighted\<close> of the library \<open>golang.org/x/sync\<close>. \<open>Acquire\<close> is a method on
  \<open>*Weighted\<close> that locks the mutex of its receiver before anything else: on a \<open>nil\<close>
  receiver it panics with a nil pointer dereference. On a semaphore it returns \<open>nil\<close> once
  the permit is held, or the error of the context; which of the two is given by the
  environment. The count of permits is not modelled.
\<close>

record Weighted =
  limit :: int
  held :: int

definition Acquire :: "Weighted option \<Rightarrow> error option \<Rightarrow> error option outcome" where
  "Acquire s granted = (case s of None \<Rightarrow> Panics | Some sem \<Rightarrow> Returns granted)"

text \<open>
  What one call of \<open>processTable\<close> gets from outside. \<open>GenerateTableChunks\<close>, \<open>diffChunk\<close>
  and \<open>scheduleWriteBatch\<close> are functions of this package that are not among the source
  files: each is given by what it sends and what it returns.
  \<^item> \<open>acquireChunker\<close>: what \<open>Acquire\<close> returns to the chunker;
  \<^item> \<open>generateTableChunks\<close>: the chunks \<open>GenerateTableChunks\<close> sends and the error it returns;
  \<^item> \<open>acquireDiffer\<close>: what \<open>Acquire\<close> returns to the differ before a chunk;
  \<^item> \<open>diffChunk\<close>: the diffs \<open>diffChunk\<close> sends for a chunk and the error it returns;
  \<^item> \<open>diffOrder\<close>: the order in which the diffs of the \<open>diffChunk\<close> tasks, which run side
    by side, reach the channel;
  \<^item> \<open>cancelSeen\<close>: after how many diffs the batcher finds the context cancelled, if ever;
  \<^item> \<open>rangeOrder\<close>: the order of the batcher's final \<open>range\<close> over its map;
  \<^item> \<open>scheduleWriteBatch\<close>: the error \<open>scheduleWriteBatch\<close> returns for a batch;
  \<^item> \<open>writesWait\<close>: what \<open>Wait\<close> of the writer's own group returns;
  \<^item> \<open>finishOrder\<close>: the order in which the four tasks return.
\<close>

record run =
  acquireChunker :: "error option"
  generateTableChunks :: "Chunk list \<times> error option"
  acquireDiffer :: "Chunk \<Rightarrow> error option"
  diffChunk :: "Chunk \<Rightarrow> Diff list \<times> error option"
  diffOrder :: "nat list"
  cancelSeen :: "nat option"
  rangeOrder :: "DiffType list"
  scheduleWriteBatch :: "Batch \<Rightarrow> error option"
  writesWait :: "error option"
  finishOrder :: "nat list"

definition send_all :: "'a list \<Rightarrow> 'a chan \<Rightarrow> 'a chan" where
  "send_all vs c = foldl (\<lambda>c v. chan_send v c) c vs"

text \<open>
  The chunker task (lines 73 to 84). When \<open>Acquire\<close> fails it returns before
  \<open>close(chunks)\<close>; otherwise it closes the channel whatever \<open>GenerateTableChunks\<close> returns.
\<close>

definition chunker_task :: "Weighted option \<Rightarrow> run \<Rightarrow> world \<Rightarrow> error option outcome \<times> world" where
  "chunker_task readerLimiter env w =
     (case Acquire readerLimiter (acquireChunker env) of
        Panics \<Rightarrow> (Panics, w)
      | Blocks \<Rightarrow> (Blocks, w)
      | Returns (Some err) \<Rightarrow> (Returns (errors_WithStack (Some err)), w)
      | Returns None \<Rightarrow>
          (let (cs, err) = generateTableChunks env;
               w = w\<lparr>chunks := send_all cs (chunks w)\<rparr>;
               w = w\<lparr>chunks := chan_close (chunks w)\<rparr>
           in (Returns (errors_WithStack err), w)))"

text \<open>
  \<open>Wait\<close> of an \<open>errgroup\<close> whose tasks have all returned: the first error among them, here
  in the order of the list.
\<close>

fun first_error :: "error option list \<Rightarrow> error option" where
  "first_error [] = None"
| "first_error (Some err # rest) = Some err"
| "first_error (None # rest) = first_error rest"

text \<open>
  Several tasks sending on one channel side by side: the values of each task keep their
  order, and \<open>order\<close> names, turn by turn, the task whose next value gets through. Values
  left when \<open>order\<close> ends follow task by task.
\<close>

fun interleave :: "nat list \<Rightarrow> 'a list list \<Rightarrow> 'a list" where
  "interleave [] xss = concat xss"
| "interleave (i # order) xss =
     (if i < length xss
      then (case xss ! i of
              [] \<Rightarrow> interleave order xss
            | x # xs \<Rightarrow> x # interleave order (xss[i := xs]))
      else interleave order xss)"

text \<open>
  The differ task (lines 88 to 111). The loop over the chunks leaves early when \<open>Acquire\<close>
  fails; otherwise it starts \<open>diffChunk\<close> in the task's own group. \<open>started\<close> collects, in
  the order of the chunks, what each \<open>diffChunk\<close> started sends and returns. The \<open>range\<close>
  ends only when \<open>chunks\<close> is closed. After it, an error of the group is returned before
  \<open>close(diffs)\<close>. The diffs of the tasks started are on the channel on every way out.
\<close>

fun differ_loop ::
  "Weighted option \<Rightarrow> run \<Rightarrow> Chunk list \<Rightarrow> (Diff list \<times> error option) list \<Rightarrow> world
   \<Rightarrow> error option outcome option \<times> (Diff list \<times> error option) list \<times> world" where
  "differ_loop readerLimiter env [] started w = (None, started, w)"
| "differ_loop readerLimiter env (chunk # cs) started w =
     (case Acquire readerLimiter (acquireDiffer env chunk) of
        Panics \<Rightarrow> (Some Panics, started, w)
      | Blocks \<Rightarrow> (Some Blocks, started, w)
      | Returns (Some err) \<Rightarrow> (Some (Returns (errors_WithStack (Some err))), started, w)
      | Returns None \<Rightarrow>
          differ_loop readerLimiter env cs (started @ [diffChunk env chunk])
            (w\<lparr>chunkCount := chunkCount w + 1\<rparr>))"

definition differ_task :: "Weighted option \<Rightarrow> run \<Rightarrow> world \<Rightarrow> error option outcome \<times> world" where
  "differ_task readerLimiter env w =
     (case differ_loop readerLimiter env (sent (chunks w)) [] w of
        (early, started, w) \<Rightarrow>
          (let w = w\<lparr>diffs := send_all (interleave (diffOrder env) (map fst started)) (diffs w)\<rparr>
           in case early of
                Some r \<Rightarrow> (r, w)
              | None \<Rightarrow>
                  if closes (chunks w) = 0 then (Blocks, w)
                  else (case first_error (map snd started) of
                          Some err \<Rightarrow> (Returns (errors_WithStack (Some err)), w)
                        | None \<Rightarrow> (Returns None, w\<lparr>diffs := chan_close (diffs w)\<rparr>))))"

text \<open>
  The batcher task (lines 115 to 119). Its turns are the diffs on the channel and then
  the closed channel, or a cancelled context after \<open>cancelSeen\<close> diffs. \<open>close(batches)\<close>
  follows every return of \<open>BatchTableWrites\<close>.
\<close>

definition batcher_turns :: "run \<Rightarrow> Diff chan \<Rightarrow> Diff recv list" where
  "batcher_turns env c =
     (case cancelSeen env of
        Some k \<Rightarrow> map Recv (take k (sent c)) @ [Done]
      | None \<Rightarrow> map Recv (sent c) @ (if closes c = 0 then [] else [Closed]))"

definition batcher_task :: "Clone \<Rightarrow> run \<Rightarrow> world \<Rightarrow> error option outcome \<times> world" where
  "batcher_task cmd env w =
     (case BatchTableWrites (WriteBatchSize cmd) (rangeOrder env) (batcher_turns env (diffs w)) w of
        (Returns err, w) \<Rightarrow> (Returns (errors_WithStack err), w\<lparr>batches := chan_close (batches w)\<rparr>)
      | (Blocks, w) \<Rightarrow> (Blocks, w)
      | (Panics, w) \<Rightarrow> (Panics, w))"

text \<open>
  The writer task (lines 122 to 141): for every batch it adds the size to the count of
  its type and to \<open>writes_enqueued\<close>, then schedules the write. The \<open>range\<close> ends only when
  \<open>batches\<close> is closed.
\<close>

fun writer_loop :: "run \<Rightarrow> Batch list \<Rightarrow> world \<Rightarrow> error option \<times> world" where
  "writer_loop env [] w = (None, w)"
| "writer_loop env (batch # rest) w =
     (let size = length (Rows batch);
          w = (case Batch.Type batch of
                 Update \<Rightarrow> w\<lparr>updates := updates w + size\<rparr>
               | Delete \<Rightarrow> w\<lparr>deletes := deletes w + size\<rparr>
               | Insert \<Rightarrow> w\<lparr>inserts := inserts w + size\<rparr>);
          w = w\<lparr>writesEnqueued_reader :=
                   counter_Add (batch_label batch) (length (Rows batch)) (writesEnqueued_reader w)\<rparr>
      in case scheduleWriteBatch env batch of
           Some err \<Rightarrow> (errors_WithStack (Some err), w)
         | None \<Rightarrow> writer_loop env rest w)"

definition writer_task :: "run \<Rightarrow> world \<Rightarrow> error option outcome \<times> world" where
  "writer_task env w =
     (case writer_loop env (sent (batches w)) w of
        (Some err, w) \<Rightarrow> (Returns (Some err), w)
      | (None, w) \<Rightarrow> if closes (batches w) = 0 then (Blocks, w) else (Returns (writesWait env), w))"

text \<open>
  \<open>g.Wait()\<close> of the four tasks: a panic ends the program, a task that never returns
  keeps \<open>Wait\<close> from returning, and otherwise it is the error of the first task to return
  one. \<open>finishOrder\<close> names the tasks by their position; tasks it leaves out return last.
\<close>

definition result_error :: "error option outcome \<Rightarrow> error option" where
  "result_error r = (case r of Returns err \<Rightarrow> err | Blocks \<Rightarrow> None | Panics \<Rightarrow> None)"

definition errgroup_Wait :: "nat list \<Rightarrow> error option outcome list \<Rightarrow> error option outcome" where
  "errgroup_Wait order results =
     (if Panics \<in> set results then Panics
      else if Blocks \<in> set results then Blocks
      else Returns (first_error
             (map (\<lambda>i. result_error (results ! i))
                (remdups (filter (\<lambda>i. i < length results) order @ [0..<length results])))))"

text \<open>
  The four tasks of \<open>processTable\<close>, with the results of the chunker, the differ, the
  batcher and the writer in this order, and \<open>processTable\<close> up to \<open>err := g.Wait()\<close>.

  The tasks run concurrently and are connected only by the channels, each reading what
  the task before it sent; the model runs them in the order of the data. What is given
  from outside (\<open>run\<close>) decides where a task is let through, fails or is cancelled. The
  capacity \<open>QueueSize\<close> of the channels and the number of permits of the limiters only
  decide whether a sender or an \<open>Acquire\<close> is let through or waits; they are not modelled,
  so a send or a granted \<open>Acquire\<close> never waits for ever here. Every run of the code in
  which all four tasks return is a run of the model; the model also returns for runs in
  which the code would wait for ever on a full channel or for a permit (with \<open>QueueSize\<close>
  zero and a single permit, for instance, the chunker keeps its permit while it waits to
  send its second chunk, and the differ waits for that permit). What holds of every run
  of the model therefore holds of every run of the code that ends. The runs evaluated
  below have room in the channels (\<open>QueueSize\<close> ten) and permits to spare.
\<close>

definition processTable_tasks ::
  "Clone \<Rightarrow> Weighted option \<Rightarrow> Table \<Rightarrow> run \<Rightarrow> world \<Rightarrow> error option outcome list \<times> world" where
  "processTable_tasks cmd readerLimiter table env w =
     (let w = w\<lparr>logs := logs w @ [Infof ''start'']\<rparr>;
          w = w\<lparr>updates := 0, deletes := 0, inserts := 0, chunkCount := 0\<rparr>;
          w = w\<lparr>chunks := \<lparr>sent = [], closes = 0\<rparr>\<rparr>;
          (r1, w) = chunker_task readerLimiter env w;
          w = w\<lparr>diffs := \<lparr>sent = [], closes = 0\<rparr>\<rparr>;
          (r2, w) = differ_task readerLimiter env w;
          w = w\<lparr>batches := \<lparr>sent = [], closes = 0\<rparr>\<rparr>;
          (r3, w) = batcher_task cmd env w;
          (r4, w) = writer_task env w
      in ([r1, r2, r3, r4], w))"

definition processTable_group ::
  "Clone \<Rightarrow> Weighted option \<Rightarrow> Table \<Rightarrow> run \<Rightarrow> world \<Rightarrow> error option outcome \<times> world" where
  "processTable_group cmd readerLimiter table env w =
     (case processTable_tasks cmd readerLimiter table env w of
        (results, w) \<Rightarrow> (errgroup_Wait (finishOrder env) results, w))"

text \<open>
  \<open>processTable\<close> from \<open>err := g.Wait()\<close> on (lines 143 to 164): an error that is not the
  cancellation is logged; every error is returned, with a stack.
\<close>

definition processTable_finish :: "error option \<Rightarrow> world \<Rightarrow> error option outcome \<times> world" where
  "processTable_finish err w =
     (case err of
        Some e \<Rightarrow>
          (let w = (if \<not> errors_Is e Canceled then w\<lparr>logs := logs w @ [Errorf e]\<rparr> else w)
           in (Returns (errors_WithStack (Some e)), w))
      | None \<Rightarrow> (Returns None, w\<lparr>logs := logs w @ [Infof ''success'']\<rparr>))"

definition processTable ::
  "Clone \<Rightarrow> Weighted option \<Rightarrow> Table \<Rightarrow> run \<Rightarrow> world \<Rightarrow> error option outcome \<times> world" where
  "processTable cmd readerLimiter table env w =
     (case processTable_group cmd readerLimiter table env w of
        (Returns err, w) \<Rightarrow> processTable_finish err w
      | (Blocks, w) \<Rightarrow> (Blocks, w)
      | (Panics, w) \<Rightarrow> (Panics, w))"

text \<open>
  \<open>ProcessTables\<close>: the loop over the turns of its \<open>select\<close>, with the call it makes for a
  table as a parameter, and the function itself, whose call passes \<open>nil\<close> for
  \<open>readerLimiter\<close> (line 46).
\<close>

fun ProcessTables_loop ::
  "(Table \<Rightarrow> world \<Rightarrow> error option outcome \<times> world) \<Rightarrow> Table recv list \<Rightarrow> world
   \<Rightarrow> error option outcome \<times> world" where
  "ProcessTables_loop call [] w = (Blocks, w)"
| "ProcessTables_loop call (Closed # turns) w = (Returns None, w)"
| "ProcessTables_loop call (Done # turns) w = (Returns None, w)"
| "ProcessTables_loop call (Recv table # turns) w =
     (case call table w of
        (Returns None, w) \<Rightarrow> ProcessTables_loop call turns w
      | (Returns (Some err), w) \<Rightarrow> (Returns (errors_WithStack (Some err)), w)
      | (Blocks, w) \<Rightarrow> (Blocks, w)
      | (Panics, w) \<Rightarrow> (Panics, w))"

definition ProcessTables ::
  "Clone \<Rightarrow> (Table \<Rightarrow> run) \<Rightarrow> Table recv list \<Rightarrow> world \<Rightarrow> error option outcome \<times> world" where
  "ProcessTables cmd envs turns w =
     ProcessTables_loop (\<lambda>table. processTable cmd None table (envs table)) turns w"

text \<open>
  The runs used as examples below: the spec's first scenario (three rows to insert, two
  chunks, a batch size of ten), a run whose only error is the cancellation returned by
  \<open>GenerateTableChunks\<close>, and a run in which \<open>diffChunk\<close> fails.
\<close>

definition cmd0 :: Clone where
  "cmd0 = \<lparr>QueueSize = 10, ChunkSize = 2, WriteBatchSize = 10, ChunkingTimeout = 0, ReadTimeout = 0\<rparr>"

definition sem0 :: Weighted where
  "sem0 = \<lparr>limit = 4, held = 0\<rparr>"

definition first_chunk :: Chunk where
  "first_chunk = \<lparr>Chunk.Table = customers, Start = 0, End = 3, First = True, Last = False\<rparr>"

definition last_chunk :: Chunk where
  "last_chunk = \<lparr>Chunk.Table = customers, Start = 3, End = 0, First = False, Last = True\<rparr>"

definition pure_insert :: run where
  "pure_insert =
     \<lparr>acquireChunker = None,
      generateTableChunks = ([first_chunk, last_chunk], None),
      acquireDiffer = (\<lambda>chunk. None),
      diffChunk = (\<lambda>chunk.
        if First chunk
        then ([\<lparr>Diff.Type = Insert, Row = customer 1\<rparr>,
               \<lparr>Diff.Type = Insert, Row = customer 2\<rparr>], None)
        else ([\<lparr>Diff.Type = Insert, Row = customer 3\<rparr>], None)),
      diffOrder = [],
      cancelSeen = None,
      rangeOrder = [],
      scheduleWriteBatch = (\<lambda>batch. None),
      writesWait = None,
      finishOrder = []\<rparr>"


definition failed_read :: run where
  "failed_read =
     \<lparr>acquireChunker = None,
      generateTableChunks = ([first_chunk, last_chunk], None),
      acquireDiffer = (\<lambda>chunk. None),
      diffChunk = (\<lambda>chunk. ([], Some (Failure ''read failed''))),
      diffOrder = [],
      cancelSeen = Some 0,
      rangeOrder = [],
      scheduleWriteBatch = (\<lambda>batch. None),
      writesWait = None,
      finishOrder = []\<rparr>"

text \<open>
  What is said of a batch below: its rows are the rows of some of the diffs received, in
  their order, all of the type of the batch, and its table is that of a diff received.
  An emitted batch is not empty and not above the size; a batch still held in the map is
  of the type of its key and below the size.
\<close>

definition rows_from :: "Diff list \<Rightarrow> Batch \<Rightarrow> bool" where
  "rows_from seen b = (\<exists>ds. subseq ds seen \<and> Rows b = map Row ds \<and> (\<forall>d\<in>set ds. Diff.Type d = Batch.Type b))"

definition table_from :: "Diff list \<Rightarrow> Batch \<Rightarrow> bool" where
  "table_from seen b = (\<exists>d\<in>set seen. Batch.Table b = Row.Table (Row d))"

definition batch_ok :: "int \<Rightarrow> Diff list \<Rightarrow> Batch \<Rightarrow> bool" where
  "batch_ok batchSize seen b =
     (Rows b \<noteq> [] \<and> int (length (Rows b)) \<le> batchSize \<and> rows_from seen b \<and> table_from seen b)"

definition open_ok :: "int \<Rightarrow> Diff list \<Rightarrow> DiffType \<Rightarrow> Batch \<Rightarrow> bool" where
  "open_ok batchSize seen t b =
     (Batch.Type b = t \<and> int (length (Rows b)) < batchSize \<and> rows_from seen b \<and> table_from seen b)"




declare rejectStream_rows.simps [simp del]
declare source_rows.simps [simp del]

section \<open>The shard gate admits exactly the rows in the filter\<close>

lemma InShard_iff:
  "InShard vhash ident shard = (\<exists>keyRange\<in>set shard. KeyRangeContains keyRange (vhash ident))"
  by (induction shard) auto

lemma source_rows_Nil: "source_rows [] = ([], None)"
  by (subst source_rows.simps) simp

lemma source_rows_Inl: "source_rows (Inl err # s) = ([], Some err)"
  by (subst source_rows.simps) simp

lemma source_rows_Inr:
  "source_rows (Inr row # s) = (row # fst (source_rows s), snd (source_rows s))"
  by (subst source_rows.simps) (simp add: case_prod_beta)

lemma rejectStream_rows_pure:
  "rejectStream_rows \<lparr>source = s, reject = \<lambda>row. Inr (\<not> P row)\<rparr> =
     (filter P (fst (source_rows s)), map_option WithStack (snd (source_rows s)))"
proof (induction s)
  case Nil
  show ?case
    by (subst rejectStream_rows.simps) (simp add: rejectStream_Next_Nil source_rows_Nil)
next
  case (Cons x s)
  show ?case
  proof (cases x)
    case (Inl err)
    then show ?thesis
      by (subst rejectStream_rows.simps) (simp add: rejectStream_Next_Inl source_rows_Inl)
  next
    case (Inr row)
    show ?thesis
    proof (cases "P row")
      case True
      with Inr Cons.IH show ?thesis
        by (subst rejectStream_rows.simps) (simp add: rejectStream_Next_Inr source_rows_Inr)
    next
      case False
      have "rejectStream_Next \<lparr>source = Inr row # s, reject = \<lambda>row. Inr (\<not> P row)\<rparr> =
            rejectStream_Next \<lparr>source = s, reject = \<lambda>row. Inr (\<not> P row)\<rparr>"
        using False by (simp add: rejectStream_Next_Inr)
      then have "rejectStream_rows \<lparr>source = Inr row # s, reject = \<lambda>row. Inr (\<not> P row)\<rparr> =
            rejectStream_rows \<lparr>source = s, reject = \<lambda>row. Inr (\<not> P row)\<rparr>"
        by (subst rejectStream_rows.simps, subst (2) rejectStream_rows.simps) simp
      with False Inr Cons.IH show ?thesis
        by (simp add: source_rows_Inr)
    qed
  qed
qed

lemma filterStreamByShard_rows:
  "rejectStream_rows (filterStreamByShard vhash stream table targetFilter) =
     (filter (\<lambda>row. InShard vhash (ShardingID row) targetFilter) (fst (source_rows stream)),
      map_option WithStack (snd (source_rows stream)))"
  unfolding filterStreamByShard_def newRejectStream_def by (rule rejectStream_rows_pure)

text \<open>
  C1. The rows a consumer reads from the stream built by \<open>filterStreamByShard\<close> are the
  rows of the underlying stream, in their order, whose \<open>ShardingID\<close> hashed by \<open>vhash\<close> lies
  in at least one key range of the target filter; all other rows are dropped. When the
  underlying stream fails, this holds of the rows before the failure.
\<close>

theorem filterStreamByShard_yields_rows_in_shard:
  "fst (rejectStream_rows (filterStreamByShard vhash stream table targetFilter)) =
     filter (\<lambda>row. \<exists>keyRange\<in>set targetFilter.
                     KeyRangeContains keyRange (vhash (ShardingID row)))
       (fst (source_rows stream))"
  by (simp add: filterStreamByShard_rows InShard_iff)

text \<open>
  C10. With no key range in the filter, \<open>InShard\<close> is false for every id, and the stream
  filtered by an empty filter gives no row at all.
\<close>

theorem InShard_empty_filter_rejects_all:
  "InShard vhash ident [] = False \<and>
   fst (rejectStream_rows (filterStreamByShard vhash stream table [])) = []"
  by (simp add: filterStreamByShard_rows)

section \<open>Chunk predicates\<close>

lemma chunkWhere_clauses_full_table:
  "First chunk \<Longrightarrow> Last chunk \<Longrightarrow>
   chunkWhere_clauses chunk extraWhereClause =
     (if extraWhereClause \<noteq> [] then [Raw extraWhereClause] else [])"
  by (simp add: chunkWhere_clauses_def)

lemma chunkWhere_full_table:
  "First chunk \<Longrightarrow> Last chunk \<Longrightarrow>
   chunkWhere chunk extraWhereClause =
     (if extraWhereClause \<noteq> [] then ''where ('' @ extraWhereClause @ '')'' else [])"
  by (simp add: chunkWhere_def chunkWhere_clauses_full_table)

text \<open>
  C3. In part_001 a chunk with both flags gets no primary-key conjunct
  (\<open>chunkWhere_clauses_full_table\<close>). \<open>StreamChunk\<close> of part_000 tests \<open>chunk.First\<close> alone
  first: for the chunk with both flags and \<open>End = 0\<close> over the table \<open>customers\<close> its
  statement keeps the predicate \<open>id < ?\<close> bound to \<open>0\<close>, and the row with id \<open>1\<close> is
  not selected.
\<close>

theorem StreamChunk_part_000_full_table_chunk_keeps_predicate:
  "StreamChunk_part_000 \<lparr>Chunk.Table = customers, Start = 0, End = 0, First = True, Last = True\<rparr> =
     \<lparr>conjuncts = [Lt ''id'' 0],
      statement = ''select id, name from customers where id < ? order by id asc'',
      args = [0]\<rparr> \<and>
   \<not> selects (conjuncts (StreamChunk_part_000
          \<lparr>Chunk.Table = customers, Start = 0, End = 0, First = True, Last = True\<rparr>)) 1"
  by (simp add: StreamChunk_part_000_def QueryContext_def customers_def selects_def)

lemma boundaries_Cons: "boundaries (c # d # cs) = sint (End c) # boundaries (d # cs)"
  by (simp add: boundaries_def)














lemma chunks_from_sorted_iff:
  "chunks_from e cs \<Longrightarrow>
   sorted (sint e # boundaries cs) \<longleftrightarrow> (\<forall>c\<in>set (butlast cs). sint (Start c) \<le> sint (End c))"
proof (induction e cs rule: chunks_from.induct)
  case (1 e)
  then show ?case by simp
next
  case (2 e c)
  then show ?case by (simp add: boundaries_def)
next
  case (3 e c d cs)
  from "3.prems" have c: "Start c = e" and rest: "chunks_from (End c) (d # cs)" by simp_all
  have "sorted (sint e # boundaries (c # d # cs)) \<longleftrightarrow>
        sint e \<le> sint (End c) \<and> sorted (sint (End c) # boundaries (d # cs))"
    by (auto simp: boundaries_Cons)
  with "3.IH" [OF rest] c show ?case by auto
qed

lemma shared_boundaries_sorted_iff:
  assumes "shared_boundaries cs"
  shows "sorted (boundaries cs) \<longleftrightarrow>
         (\<forall>c\<in>set (butlast (tl cs)). sint (Start c) \<le> sint (End c))"
proof (cases cs)
  case Nil
  with assms show ?thesis by simp
next
  case (Cons c ds)
  with assms have rest: "chunks_from (End c) ds" by simp
  then obtain d ds' where ds: "ds = d # ds'" by (cases ds) auto
  from chunks_from_sorted_iff [OF rest] Cons ds show ?thesis
    by (simp add: boundaries_Cons)
qed



section \<open>The batchers\<close>

lemma rows_from_mono: "rows_from seen b \<Longrightarrow> rows_from (seen @ later) b"
  unfolding rows_from_def by (meson list_emb_prefix)

lemma table_from_mono: "table_from seen b \<Longrightarrow> table_from (seen @ later) b"
  unfolding table_from_def by auto

lemma batch_ok_mono: "batch_ok n seen b \<Longrightarrow> batch_ok n (seen @ later) b"
  unfolding batch_ok_def by (simp add: rows_from_mono table_from_mono)

lemma open_ok_mono: "open_ok n seen t b \<Longrightarrow> open_ok n (seen @ later) t b"
  unfolding open_ok_def by (simp add: rows_from_mono table_from_mono)

lemma rows_from_append:
  assumes "rows_from seen b" and "Batch.Type b = Diff.Type diff"
  shows "rows_from (seen @ [diff]) (b\<lparr>Rows := Rows b @ [Row diff]\<rparr>)"
proof -
  from assms(1) obtain ds where ds: "subseq ds seen" "Rows b = map Row ds"
    "\<forall>d\<in>set ds. Diff.Type d = Batch.Type b"
    unfolding rows_from_def by blast
  from ds(1) have "subseq (ds @ [diff]) (seen @ [diff])"
    by (simp add: list_emb_append_mono)
  moreover from ds(2) have "Rows (b\<lparr>Rows := Rows b @ [Row diff]\<rparr>) = map Row (ds @ [diff])" by simp
  moreover from ds(3) assms(2) have "\<forall>d\<in>set (ds @ [diff]). Diff.Type d = Batch.Type (b\<lparr>Rows := Rows b @ [Row diff]\<rparr>)"
    by simp
  ultimately show ?thesis unfolding rows_from_def by blast
qed

lemma rows_from_clear: "rows_from seen (b\<lparr>Rows := []\<rparr>)"
  unfolding rows_from_def by (rule exI [of _ "[]"]) simp

lemma sent_enqueueBatch: "sent (batches (enqueueBatch b w)) = sent (batches w) @ [b]"
  by (simp add: enqueueBatch_def counter_Add_def chan_send_def Let_def)

lemma append_row_ok:
  assumes n: "1 \<le> n"
    and b: "Batch.Type b = Diff.Type diff" "int (length (Rows b)) < n" "rows_from seen b"
           "table_from (seen @ [diff]) b"
    and old: "\<forall>x\<in>set (sent (batches w)). batch_ok n seen x"
    and res: "append_row n b diff w = (b', w')"
  shows "open_ok n (seen @ [diff]) (Diff.Type diff) b' \<and>
         (\<forall>x\<in>set (sent (batches w')). batch_ok n (seen @ [diff]) x)"
proof -
  let ?b = "b\<lparr>Rows := Rows b @ [Row diff]\<rparr>"
  have rf: "rows_from (seen @ [diff]) ?b" using b(3) b(1) by (rule rows_from_append)
  have tf: "table_from (seen @ [diff]) ?b" using b(4) by (simp add: table_from_def)
  have old': "\<forall>x\<in>set (sent (batches w)). batch_ok n (seen @ [diff]) x"
    using old by (simp add: batch_ok_mono)
  show ?thesis
  proof (cases "int (length (Rows ?b)) \<ge> n")
    case True
    with res have r: "b' = ?b\<lparr>Rows := []\<rparr>" "w' = enqueueBatch ?b w"
      by (simp_all add: append_row_def Let_def)
    from True b(2) have "int (length (Rows ?b)) \<le> n" by simp
    with rf tf have "batch_ok n (seen @ [diff]) ?b" by (simp add: batch_ok_def)
    moreover have "open_ok n (seen @ [diff]) (Diff.Type diff) b'"
      using n b(1) tf unfolding r open_ok_def
      by (simp add: rows_from_clear table_from_def)
    ultimately show ?thesis using old' r by (simp add: sent_enqueueBatch)
  next
    case False
    with res have r: "b' = ?b" "w' = w"
      by (simp_all add: append_row_def Let_def)
    from False rf tf b(1) have "open_ok n (seen @ [diff]) (Diff.Type diff) b'"
      unfolding r open_ok_def by simp
    with old' r show ?thesis by simp
  qed
qed

lemma flush_ok:
  assumes "\<forall>(k, b)\<in>set m. open_ok n seen (Batch.Type b) b"
    and "\<forall>x\<in>set (sent (batches w)). batch_ok n seen x"
  shows "\<forall>x\<in>set (sent (batches (flush m w))). batch_ok n seen x"
  using assms
proof (induction m arbitrary: w)
  case Nil
  then show ?case by simp
next
  case (Cons e m)
  obtain k b where e: "e = (k, b)" by (cases e)
  from Cons.prems(1) e have ob: "open_ok n seen (Batch.Type b) b" by simp
  have "\<forall>x\<in>set (sent (batches (if length (Rows b) > 0 then enqueueBatch b w else w))). batch_ok n seen x"
    using ob Cons.prems(2) by (auto simp: sent_enqueueBatch batch_ok_def open_ok_def)
  with Cons.IH [of "if length (Rows b) > 0 then enqueueBatch b w else w"] Cons.prems(1) e
  show ?case by simp
qed

lemma set_map_range: "set (map_range order m) = set m"
  by (auto simp: map_range_def)

lemma set_update_subset: "e \<in> set (AList.update k v m) \<Longrightarrow> e = (k, v) \<or> e \<in> set m"
  by (induction m) (auto split: if_splits)


lemma flush_ok':
  assumes "\<forall>e\<in>set m. open_ok n seen (fst e) (snd e)"
    and "\<forall>x\<in>set (sent (batches w)). batch_ok n seen x"
  shows "\<forall>x\<in>set (sent (batches (flush m w))). batch_ok n seen x"
proof -
  from assms(1) have "\<forall>(k, b)\<in>set m. open_ok n seen (Batch.Type b) b"
    by (auto simp: open_ok_def)
  then show ?thesis using assms(2) by (rule flush_ok)
qed

lemma received_Recv: "received (Recv d # turns) = d # received turns"
  by simp

lemma BatchTableWrites_loop_ok:
  assumes n: "1 \<le> n"
  shows "\<forall>e\<in>set m. open_ok n seen (fst e) (snd e) \<Longrightarrow>
         \<forall>x\<in>set (sent (batches w)). batch_ok n seen x \<Longrightarrow>
         \<forall>x\<in>set (sent (batches (snd (BatchTableWrites_loop n order m turns w)))).
            batch_ok n (seen @ received turns) x"
proof (induction turns arbitrary: m w seen)
  case Nil
  then show ?case by simp
next
  case (Cons turn turns)
  show ?case
  proof (cases turn)
    case (Recv diff)
    let ?b = "case map_of m (Diff.Type diff) of
                None \<Rightarrow> \<lparr>Type = Diff.Type diff, Table = Row.Table (Row diff), Rows = []\<rparr>
              | Some batch \<Rightarrow> batch"
    obtain b' w' where ar: "append_row n ?b diff w = (b', w')" by (cases "append_row n ?b diff w")
    have pre: "Batch.Type ?b = Diff.Type diff \<and> int (length (Rows ?b)) < n \<and> rows_from seen ?b \<and>
               table_from (seen @ [diff]) ?b"
    proof (cases "map_of m (Diff.Type diff)")
      case None
      with n show ?thesis by (simp add: rows_from_def table_from_def)
    next
      case (Some b)
      then have "(Diff.Type diff, b) \<in> set m" by (rule map_of_SomeD)
      with Cons.prems(1) have "open_ok n seen (Diff.Type diff) b" by force
      with Some show ?thesis by (simp add: open_ok_def table_from_mono)
    qed
    from append_row_ok [OF n _ _ _ _ Cons.prems(2) ar] pre
    have post: "open_ok n (seen @ [diff]) (Diff.Type diff) b'"
      "\<forall>x\<in>set (sent (batches w')). batch_ok n (seen @ [diff]) x"
      by blast+
    have inv: "\<forall>e\<in>set (AList.update (Diff.Type diff) b' m). open_ok n (seen @ [diff]) (fst e) (snd e)"
    proof
      fix e assume "e \<in> set (AList.update (Diff.Type diff) b' m)"
      then have "e = (Diff.Type diff, b') \<or> e \<in> set m" by (rule set_update_subset)
      with post(1) Cons.prems(1) show "open_ok n (seen @ [diff]) (fst e) (snd e)"
        by (auto simp: open_ok_mono)
    qed
    from Cons.IH [OF inv post(2)] Recv ar show ?thesis by simp
  next
    case Closed
    from Cons.prems have "\<forall>x\<in>set (sent (batches (flush (map_range order m) w))). batch_ok n seen x"
      by (intro flush_ok') (simp_all add: set_map_range)
    with Closed show ?thesis by simp
  next
    case Done
    with Cons.prems show ?thesis by simp
  qed
qed

lemma flush_tables_ok:
  assumes "\<forall>e\<in>set mm. \<forall>f\<in>set (snd e). open_ok n seen (fst e) (snd f)"
    and "\<forall>x\<in>set (sent (batches w)). batch_ok n seen x"
  shows "\<forall>x\<in>set (sent (batches (flush_tables orderByType mm w))). batch_ok n seen x"
  using assms
proof (induction mm arbitrary: w)
  case Nil
  then show ?case by simp
next
  case (Cons e mm)
  obtain t byTable where e: "e = (t, byTable)" by (cases e)
  from Cons.prems(1) e have "\<forall>(k, b)\<in>set (map_range (orderByType t) byTable). open_ok n seen (Batch.Type b) b"
    by (auto simp: set_map_range open_ok_def)
  then have "\<forall>x\<in>set (sent (batches (flush (map_range (orderByType t) byTable) w))). batch_ok n seen x"
    using Cons.prems(2) by (rule flush_ok)
  with Cons.IH [of "flush (map_range (orderByType t) byTable) w"] Cons.prems(1) e
  show ?case by simp
qed

lemma BatchWrites_finish_ok:
  assumes "\<forall>e\<in>set mm. \<forall>f\<in>set (snd e). open_ok n seen (fst e) (snd f)"
    and "\<forall>x\<in>set (sent (batches w)). batch_ok n seen x"
  shows "\<forall>x\<in>set (sent (batches (snd (BatchWrites_finish order orderByType mm w)))). batch_ok n seen x"
proof -
  from assms have "\<forall>x\<in>set (sent (batches (flush_tables orderByType (map_range order mm) w))). batch_ok n seen x"
    by (intro flush_tables_ok) (simp_all add: set_map_range)
  then show ?thesis by (simp add: BatchWrites_finish_def Let_def chan_close_def)
qed

lemma BatchWrites_loop_ok:
  assumes n: "1 \<le> n"
  shows "\<forall>e\<in>set mm. \<forall>f\<in>set (snd e). open_ok n seen (fst e) (snd f) \<Longrightarrow>
         \<forall>x\<in>set (sent (batches w)). batch_ok n seen x \<Longrightarrow>
         \<forall>x\<in>set (sent (batches (snd (BatchWrites_loop n order orderByType mm turns w)))).
            batch_ok n (seen @ received turns) x"
proof (induction turns arbitrary: mm w seen)
  case Nil
  then show ?case by simp
next
  case (Cons turn turns)
  show ?case
  proof (cases turn)
    case (Recv diff)
    let ?t = "Diff.Type diff"
    let ?name = "Name (Row.Table (Row diff))"
    let ?byTable = "case map_of mm ?t of None \<Rightarrow> [] | Some byTable \<Rightarrow> byTable"
    let ?b = "case map_of ?byTable ?name of
                None \<Rightarrow> \<lparr>Type = ?t, Table = Row.Table (Row diff), Rows = []\<rparr>
              | Some batch \<Rightarrow> batch"
    obtain b' w' where ar: "append_row n ?b diff w = (b', w')" by (cases "append_row n ?b diff w")
    have byTable: "\<forall>f\<in>set ?byTable. open_ok n seen ?t (snd f)"
    proof (cases "map_of mm ?t")
      case None
      then show ?thesis by simp
    next
      case (Some byTable)
      then have "(?t, byTable) \<in> set mm" by (rule map_of_SomeD)
      with Cons.prems(1) Some show ?thesis by force
    qed
    have pre: "Batch.Type ?b = ?t \<and> int (length (Rows ?b)) < n \<and> rows_from seen ?b \<and>
               table_from (seen @ [diff]) ?b"
    proof (cases "map_of ?byTable ?name")
      case None
      with n show ?thesis by (simp add: rows_from_def table_from_def)
    next
      case (Some b)
      then have "(?name, b) \<in> set ?byTable" by (rule map_of_SomeD)
      with byTable have "open_ok n seen ?t b" by force
      with Some show ?thesis by (simp add: open_ok_def table_from_mono)
    qed
    from append_row_ok [OF n _ _ _ _ Cons.prems(2) ar] pre
    have post: "open_ok n (seen @ [diff]) ?t b'"
      "\<forall>x\<in>set (sent (batches w')). batch_ok n (seen @ [diff]) x"
      by blast+
    have inner: "\<forall>f\<in>set (AList.update ?name b' ?byTable). open_ok n (seen @ [diff]) ?t (snd f)"
    proof
      fix f assume "f \<in> set (AList.update ?name b' ?byTable)"
      then have "f = (?name, b') \<or> f \<in> set ?byTable" by (rule set_update_subset)
      then show "open_ok n (seen @ [diff]) ?t (snd f)"
      proof
        assume "f = (?name, b')"
        with post(1) show ?thesis by simp
      next
        assume "f \<in> set ?byTable"
        with byTable have "open_ok n seen ?t (snd f)" by blast
        then show ?thesis by (rule open_ok_mono)
      qed
    qed
    have inv: "\<forall>e\<in>set (AList.update ?t (AList.update ?name b' ?byTable) mm).
                 \<forall>f\<in>set (snd e). open_ok n (seen @ [diff]) (fst e) (snd f)"
    proof
      fix e assume "e \<in> set (AList.update ?t (AList.update ?name b' ?byTable) mm)"
      then have "e = (?t, AList.update ?name b' ?byTable) \<or> e \<in> set mm" by (rule set_update_subset)
      then show "\<forall>f\<in>set (snd e). open_ok n (seen @ [diff]) (fst e) (snd f)"
      proof
        assume "e = (?t, AList.update ?name b' ?byTable)"
        with inner show ?thesis by simp
      next
        assume "e \<in> set mm"
        with Cons.prems(1) have "\<forall>f\<in>set (snd e). open_ok n seen (fst e) (snd f)" by blast
        then show ?thesis by (blast intro: open_ok_mono)
      qed
    qed
    from Cons.IH [OF inv post(2)] Recv ar show ?thesis by (simp add: Let_def)
  next
    case Closed
    with Cons.prems BatchWrites_finish_ok [of mm n seen w order orderByType] show ?thesis by simp
  next
    case Done
    with Cons.prems BatchWrites_finish_ok [of mm n seen w order orderByType] show ?thesis by simp
  qed
qed


lemma batch_ok_D:
  assumes "batch_ok n seen b"
  shows "Rows b \<noteq> [] \<and> int (length (Rows b)) \<le> n \<and>
         (\<exists>ds. subseq ds seen \<and> Rows b = map Row ds \<and> (\<forall>d\<in>set ds. Diff.Type d = Batch.Type b)) \<and>
         (\<forall>table. (\<forall>d\<in>set seen. Row.Table (Row d) = table) \<longrightarrow> Batch.Table b = table)"
proof -
  from assms obtain d where "d \<in> set seen" "Batch.Table b = Row.Table (Row d)"
    unfolding batch_ok_def table_from_def by blast
  then have "\<forall>table. (\<forall>d\<in>set seen. Row.Table (Row d) = table) \<longrightarrow> Batch.Table b = table"
    by simp
  with assms show ?thesis unfolding batch_ok_def rows_from_def by blast
qed

text \<open>
  C2. With a batch size of at least one and an empty output channel at the start, every
  batch that \<open>BatchTableWrites\<close> or \<open>BatchWrites\<close> sends, whatever its turns are, is not
  empty, has at most \<open>batchSize\<close> rows, and its rows are the rows of received diffs that all
  have the type of the batch. For \<open>BatchTableWrites\<close>, when all the diffs received are of
  one table, that table is the table of the batch.
\<close>

theorem batches_nonempty_bounded_one_type:
  assumes "1 \<le> batchSize" and "sent (batches w) = []"
  shows "(\<forall>b\<in>set (sent (batches (snd (BatchTableWrites batchSize order turns w)))).
            Rows b \<noteq> [] \<and> int (length (Rows b)) \<le> batchSize \<and>
            (\<exists>ds. subseq ds (received turns) \<and> Rows b = map Row ds \<and>
                  (\<forall>d\<in>set ds. Diff.Type d = Batch.Type b)) \<and>
            (\<forall>table. (\<forall>d\<in>set (received turns). Row.Table (Row d) = table) \<longrightarrow>
                     Batch.Table b = table)) \<and>
         (\<forall>b\<in>set (sent (batches (snd (BatchWrites batchSize order orderByType turns w)))).
            Rows b \<noteq> [] \<and> int (length (Rows b)) \<le> batchSize \<and>
            (\<exists>ds. subseq ds (received turns) \<and> Rows b = map Row ds \<and>
                  (\<forall>d\<in>set ds. Diff.Type d = Batch.Type b)))"
proof -
  have a: "\<forall>x\<in>set (sent (batches (snd (BatchTableWrites batchSize order turns w)))).
             batch_ok batchSize ([] @ received turns) x"
    unfolding BatchTableWrites_def
    using assms by (intro BatchTableWrites_loop_ok) simp_all
  have b: "\<forall>x\<in>set (sent (batches (snd (BatchWrites batchSize order orderByType turns w)))).
             batch_ok batchSize ([] @ received turns) x"
    unfolding BatchWrites_def
    using assms by (intro BatchWrites_loop_ok) simp_all
  have A: "\<forall>b\<in>set (sent (batches (snd (BatchTableWrites batchSize order turns w)))).
            Rows b \<noteq> [] \<and> int (length (Rows b)) \<le> batchSize \<and>
            (\<exists>ds. subseq ds (received turns) \<and> Rows b = map Row ds \<and>
                  (\<forall>d\<in>set ds. Diff.Type d = Batch.Type b)) \<and>
            (\<forall>table. (\<forall>d\<in>set (received turns). Row.Table (Row d) = table) \<longrightarrow>
                     Batch.Table b = table)"
  proof
    fix x assume "x \<in> set (sent (batches (snd (BatchTableWrites batchSize order turns w))))"
    with a have "batch_ok batchSize (received turns) x" by simp
    then show "Rows x \<noteq> [] \<and> int (length (Rows x)) \<le> batchSize \<and>
            (\<exists>ds. subseq ds (received turns) \<and> Rows x = map Row ds \<and>
                  (\<forall>d\<in>set ds. Diff.Type d = Batch.Type x)) \<and>
            (\<forall>table. (\<forall>d\<in>set (received turns). Row.Table (Row d) = table) \<longrightarrow>
                     Batch.Table x = table)"
      by (rule batch_ok_D)
  qed
  have B: "\<forall>b\<in>set (sent (batches (snd (BatchWrites batchSize order orderByType turns w)))).
            Rows b \<noteq> [] \<and> int (length (Rows b)) \<le> batchSize \<and>
            (\<exists>ds. subseq ds (received turns) \<and> Rows b = map Row ds \<and>
                  (\<forall>d\<in>set ds. Diff.Type d = Batch.Type b))"
  proof
    fix x assume "x \<in> set (sent (batches (snd (BatchWrites batchSize order orderByType turns w))))"
    with b have "batch_ok batchSize (received turns) x" by simp
    from batch_ok_D [OF this]
    show "Rows x \<noteq> [] \<and> int (length (Rows x)) \<le> batchSize \<and>
            (\<exists>ds. subseq ds (received turns) \<and> Rows x = map Row ds \<and>
                  (\<forall>d\<in>set ds. Diff.Type d = Batch.Type x))"
      by blast
  qed
  from A B show ?thesis by (rule conjI)
qed

theorem batches_nonempty_bounded_one_type_witness:
  "(1::int) \<le> 2 \<and> sent (batches world0) = [] \<and>
   \<lparr>Type = Insert, Table = customers, Rows = [customer 3]\<rparr>
     \<in> set (sent (batches (snd (BatchTableWrites 2 []
           [Recv \<lparr>Diff.Type = Insert, Row = customer 1\<rparr>,
            Recv \<lparr>Diff.Type = Insert, Row = customer 2\<rparr>,
            Recv \<lparr>Diff.Type = Insert, Row = customer 3\<rparr>, Closed] world0)))) \<and>
   (\<exists>ds. subseq ds (received
           [Recv \<lparr>Diff.Type = Insert, Row = customer 1\<rparr>,
            Recv \<lparr>Diff.Type = Insert, Row = customer 2\<rparr>,
            Recv \<lparr>Diff.Type = Insert, Row = customer 3\<rparr>, Closed]) \<and>
         Rows \<lparr>Type = Insert, Table = customers, Rows = [customer 3]\<rparr> = map Row ds \<and>
         (\<forall>d\<in>set ds. Diff.Type d =
            Batch.Type \<lparr>Type = Insert, Table = customers, Rows = [customer 3]\<rparr>))"
proof -
  let ?turns = "[Recv \<lparr>Diff.Type = Insert, Row = customer 1\<rparr>,
                 Recv \<lparr>Diff.Type = Insert, Row = customer 2\<rparr>,
                 Recv \<lparr>Diff.Type = Insert, Row = customer 3\<rparr>, Closed]"
  let ?b = "\<lparr>Type = Insert, Table = customers, Rows = [customer 3]\<rparr>"
  have h1: "(1::int) \<le> 2" by simp
  have h2: "sent (batches world0) = []" by (simp add: world0_def)
  have "sent (batches (snd (BatchTableWrites 2 [] ?turns world0))) =
          [\<lparr>Type = Insert, Table = customers, Rows = [customer 1, customer 2]\<rparr>, ?b]"
    by (simp add: BatchTableWrites_def append_row_def enqueueBatch_def counter_Add_def
        chan_send_def world0_def map_range_def customer_def Let_def)
  then have mem: "?b \<in> set (sent (batches (snd (BatchTableWrites 2 [] ?turns world0))))"
    by simp
  from batches_nonempty_bounded_one_type [OF h1 h2, of "[]" ?turns] mem
  have "\<exists>ds. subseq ds (received ?turns) \<and> Rows ?b = map Row ds \<and>
          (\<forall>d\<in>set ds. Diff.Type d = Batch.Type ?b)"
    by blast
  with h1 h2 mem show ?thesis by blast
qed

lemma BatchTableWrites_loop_Done:
  "BatchTableWrites_loop n order m (map Recv ds @ Done # rest) w =
     (Returns None, snd (BatchTableWrites_loop n order m (map Recv ds) w))"
proof (induction ds arbitrary: m w)
  case Nil
  show ?case by simp
next
  case (Cons d ds)
  show ?case by (simp add: Let_def case_prod_beta Cons.IH)
qed

lemma BatchWrites_loop_Done:
  "BatchWrites_loop n order orderByType m (map Recv ds @ Done # rest) w =
   BatchWrites_loop n order orderByType m (map Recv ds @ Closed # rest') w"
proof (induction ds arbitrary: m w)
  case Nil
  show ?case by simp
next
  case (Cons d ds)
  show ?case by (simp add: Let_def case_prod_beta Cons.IH)
qed

text \<open>
  C7, as amended. When \<open>BatchTableWrites\<close> finds the context cancelled after receiving the
  diffs \<open>ds\<close>, it returns \<open>nil\<close> and leaves the channel and the counter as they were before
  that turn: nothing more is sent, and the batches it holds are not sent. \<open>BatchWrites\<close>
  does on cancellation what it does when its input is closed: it sends the batches it
  holds that are not empty and closes the channel.
\<close>

theorem cancelled_batcher_sends_nothing_more:
  "BatchTableWrites batchSize order (map Recv ds @ Done # rest) w =
     (Returns None, snd (BatchTableWrites batchSize order (map Recv ds) w)) \<and>
   BatchWrites batchSize order orderByType (map Recv ds @ Done # rest) w =
     BatchWrites batchSize order orderByType (map Recv ds @ [Closed]) w"
  unfolding BatchTableWrites_def BatchWrites_def
  by (simp add: BatchTableWrites_loop_Done BatchWrites_loop_Done [of _ _ _ _ _ rest _ "[]"])

text \<open>
  C7 as stated fails for \<open>BatchWrites\<close>: with a batch size of two it holds one row after one
  diff and has sent nothing; when it then finds the context cancelled it sends that
  batch of one row.
\<close>

theorem BatchWrites_cancelled_sends_partial_batch_counterexample:
  "sent (batches (snd (BatchWrites 2 [] (\<lambda>t. [])
           [Recv \<lparr>Diff.Type = Insert, Row = customer 1\<rparr>] world0))) = [] \<and>
   fst (BatchWrites 2 [] (\<lambda>t. [])
           [Recv \<lparr>Diff.Type = Insert, Row = customer 1\<rparr>, Done] world0) = Returns None \<and>
   sent (batches (snd (BatchWrites 2 [] (\<lambda>t. [])
           [Recv \<lparr>Diff.Type = Insert, Row = customer 1\<rparr>, Done] world0))) =
     [\<lparr>Type = Insert, Table = customers, Rows = [customer 1]\<rparr>]"
  by (simp add: BatchWrites_def BatchWrites_finish_def append_row_def enqueueBatch_def
      counter_Add_def chan_send_def chan_close_def world0_def map_range_def customer_def Let_def)

section \<open>The table pipeline\<close>

lemmas task_defs = processTable_def processTable_group_def processTable_tasks_def
  processTable_finish_def chunker_task_def differ_task_def batcher_task_def writer_task_def
  batcher_turns_def errgroup_Wait_def result_error_def Acquire_def send_all_def chan_send_def
  chan_close_def errors_WithStack_def BatchTableWrites_def append_row_def enqueueBatch_def
  counter_Add_def batch_label_def map_range_def world0_def Let_def
















text \<open>
  In the spec's first scenario the pipeline succeeds and sends one batch of three inserts;
  the writer counts three inserts, and each of the two counters stands at three.
\<close>

lemma pure_insert_counts:
  "fst (processTable cmd0 (Some sem0) customers pure_insert world0) = Returns None \<and>
   sent (batches (snd (processTable cmd0 (Some sem0) customers pure_insert world0))) =
     [\<lparr>Type = Insert, Table = customers, Rows = [customer 1, customer 2, customer 3]\<rparr>] \<and>
   inserts (snd (processTable cmd0 (Some sem0) customers pure_insert world0)) = 3 \<and>
   writesEnqueued_reader (snd (processTable cmd0 (Some sem0) customers pure_insert world0))
     (''customers'', Insert) = 3 \<and>
   writesEnqueued_batcher (snd (processTable cmd0 (Some sem0) customers pure_insert world0))
     (''customers'', Insert) = 3"
  by (simp add: task_defs cmd0_def sem0_def pure_insert_def first_chunk_def last_chunk_def
      customer_def customers_def)

lemma processTable_nil_limiter: "fst (processTable cmd None table env w) = Panics"
proof -
  have "Panics \<in> set (fst (processTable_tasks cmd None table env w))"
    by (simp add: processTable_tasks_def chunker_task_def Acquire_def Let_def case_prod_beta)
  then have "fst (processTable_group cmd None table env w) = Panics"
    by (simp add: processTable_group_def errgroup_Wait_def case_prod_beta)
  then show ?thesis
    by (cases "processTable_group cmd None table env w") (simp add: processTable_def)
qed

text \<open>
  C9. \<open>ProcessTables\<close> passes \<open>nil\<close> for \<open>readerLimiter\<close>, so for every table it receives the
  chunker task of \<open>processTable\<close> calls \<open>Acquire\<close> on a \<open>nil\<close> semaphore and the program
  panics.
\<close>

theorem ProcessTables_panics_on_nil_readerLimiter:
  "fst (ProcessTables cmd envs (Recv table # turns) w) = Panics"
  using processTable_nil_limiter [of cmd table "envs table" w]
  by (cases "processTable cmd None table (envs table) w") (simp add: ProcessTables_def)


lemma closes_send_all: "closes (send_all vs c) = closes c"
  unfolding send_all_def by (induction vs arbitrary: c) (simp_all add: chan_send_def)

lemma sent_send_all: "sent (send_all vs c) = sent c @ vs"
  unfolding send_all_def by (induction vs arbitrary: c) (simp_all add: chan_send_def)

lemma chunker_task_frame:
  "diffs (snd (chunker_task rl env w)) = diffs w \<and>
   batches (snd (chunker_task rl env w)) = batches w \<and>
   logs (snd (chunker_task rl env w)) = logs w"
  by (simp add: chunker_task_def Acquire_def Let_def errors_WithStack_def
      split: option.splits prod.splits)

lemma chunker_task_chunks:
  "chunks (snd (chunker_task rl env w)) =
     (if rl \<noteq> None \<and> acquireChunker env = None
      then chan_close (send_all (fst (generateTableChunks env)) (chunks w))
      else chunks w)"
  by (auto simp: chunker_task_def Acquire_def Let_def split: option.splits prod.splits)

lemma differ_loop_frame:
  "chunks (snd (snd (differ_loop rl env cs started w))) = chunks w \<and>
   diffs (snd (snd (differ_loop rl env cs started w))) = diffs w \<and>
   batches (snd (snd (differ_loop rl env cs started w))) = batches w \<and>
   logs (snd (snd (differ_loop rl env cs started w))) = logs w"
  by (induction cs arbitrary: started w)
     (auto simp: Acquire_def split: option.splits)

lemma differ_loop_early:
  "fst (differ_loop rl env cs started w) = Some r \<Longrightarrow> cs \<noteq> [] \<and> r \<noteq> Returns None"
  by (induction cs arbitrary: started w)
     (auto simp: Acquire_def errors_WithStack_def split: option.splits)

lemma differ_task_frame:
  "chunks (snd (differ_task rl env w)) = chunks w \<and>
   batches (snd (differ_task rl env w)) = batches w \<and>
   logs (snd (differ_task rl env w)) = logs w"
proof -
  obtain early started w1 where dl: "differ_loop rl env (sent (chunks w)) [] w = (early, started, w1)"
    by (cases "differ_loop rl env (sent (chunks w)) [] w")
  with differ_loop_frame [of rl env "sent (chunks w)" "[]" w]
  have "chunks w1 = chunks w" "batches w1 = batches w" "logs w1 = logs w" by simp_all
  with dl show ?thesis
    by (simp add: differ_task_def Let_def split: option.splits)
qed

lemma differ_task_closes:
  "closes (diffs (snd (differ_task rl env w))) =
     (if fst (differ_task rl env w) = Returns None then Suc (closes (diffs w)) else closes (diffs w))"
proof -
  obtain early started w1 where dl: "differ_loop rl env (sent (chunks w)) [] w = (early, started, w1)"
    by (cases "differ_loop rl env (sent (chunks w)) [] w")
  with differ_loop_frame [of rl env "sent (chunks w)" "[]" w]
  have c: "diffs w1 = diffs w" by simp
  show ?thesis
  proof (cases early)
    case None
    with dl c show ?thesis
      by (simp add: differ_task_def Let_def chan_close_def closes_send_all errors_WithStack_def
          split: option.splits)
  next
    case (Some r)
    with dl differ_loop_early [of rl env "sent (chunks w)" "[]" w r] have "r \<noteq> Returns None" by simp
    with Some dl c show ?thesis
      by (simp add: differ_task_def Let_def closes_send_all)
  qed
qed

lemma differ_task_returns:
  assumes "fst (differ_task rl env w) = Returns r"
  shows "sent (chunks w) \<noteq> [] \<or> closes (chunks w) \<noteq> 0"
proof -
  obtain early started w1 where dl: "differ_loop rl env (sent (chunks w)) [] w = (early, started, w1)"
    by (cases "differ_loop rl env (sent (chunks w)) [] w")
  with differ_loop_frame [of rl env "sent (chunks w)" "[]" w]
  have c: "chunks w1 = chunks w" by simp
  show ?thesis
  proof (cases early)
    case None
    with dl c assms show ?thesis
      by (auto simp: differ_task_def Let_def split: if_splits)
  next
    case (Some r')
    with dl differ_loop_early [of rl env "sent (chunks w)" "[]" w r'] show ?thesis by simp
  qed
qed

lemma enqueueBatch_frame:
  "chunks (enqueueBatch b w) = chunks w \<and> diffs (enqueueBatch b w) = diffs w \<and>
   logs (enqueueBatch b w) = logs w \<and> closes (batches (enqueueBatch b w)) = closes (batches w)"
  by (simp add: enqueueBatch_def chan_send_def Let_def)

lemma flush_frame:
  "chunks (flush m w) = chunks w \<and> diffs (flush m w) = diffs w \<and>
   logs (flush m w) = logs w \<and> closes (batches (flush m w)) = closes (batches w)"
  by (induction m arbitrary: w) (auto simp: enqueueBatch_frame)

lemma append_row_frame:
  "chunks (snd (append_row n b d w)) = chunks w \<and> diffs (snd (append_row n b d w)) = diffs w \<and>
   logs (snd (append_row n b d w)) = logs w \<and>
   closes (batches (snd (append_row n b d w))) = closes (batches w)"
  by (simp add: append_row_def Let_def enqueueBatch_frame)

lemma BatchTableWrites_loop_frame:
  "chunks (snd (BatchTableWrites_loop n order m turns w)) = chunks w \<and>
   diffs (snd (BatchTableWrites_loop n order m turns w)) = diffs w \<and>
   logs (snd (BatchTableWrites_loop n order m turns w)) = logs w \<and>
   closes (batches (snd (BatchTableWrites_loop n order m turns w))) = closes (batches w)"
proof (induction turns arbitrary: m w)
  case Nil
  show ?case by simp
next
  case (Cons turn turns)
  show ?case
  proof (cases turn)
    case (Recv diff)
    then show ?thesis
      using append_row_frame by (simp add: Let_def case_prod_beta Cons.IH)
  next
    case Closed
    then show ?thesis by (simp add: flush_frame)
  next
    case Done
    then show ?thesis by simp
  qed
qed

lemma batcher_task_frame:
  "chunks (snd (batcher_task cmd env w)) = chunks w \<and>
   diffs (snd (batcher_task cmd env w)) = diffs w \<and>
   logs (snd (batcher_task cmd env w)) = logs w"
proof -
  let ?r = "BatchTableWrites (WriteBatchSize cmd) (rangeOrder env) (batcher_turns env (diffs w)) w"
  have "chunks (snd ?r) = chunks w \<and> diffs (snd ?r) = diffs w \<and> logs (snd ?r) = logs w"
    unfolding BatchTableWrites_def by (simp add: BatchTableWrites_loop_frame)
  then show ?thesis
    by (cases ?r) (simp add: batcher_task_def split: outcome.splits)
qed

lemma batcher_task_closes:
  "closes (batches (snd (batcher_task cmd env w))) =
     (case fst (batcher_task cmd env w) of
        Returns r \<Rightarrow> Suc (closes (batches w))
      | Blocks \<Rightarrow> closes (batches w)
      | Panics \<Rightarrow> closes (batches w))"
proof -
  let ?r = "BatchTableWrites (WriteBatchSize cmd) (rangeOrder env) (batcher_turns env (diffs w)) w"
  have "closes (batches (snd ?r)) = closes (batches w)"
    unfolding BatchTableWrites_def by (simp add: BatchTableWrites_loop_frame)
  then show ?thesis
    by (cases ?r) (simp add: batcher_task_def chan_close_def split: outcome.splits)
qed

lemma writer_loop_frame:
  "chunks (snd (writer_loop env bs w)) = chunks w \<and> diffs (snd (writer_loop env bs w)) = diffs w \<and>
   batches (snd (writer_loop env bs w)) = batches w \<and> logs (snd (writer_loop env bs w)) = logs w"
  by (induction bs arbitrary: w)
     (auto simp: Let_def errors_WithStack_def split: option.splits DiffType.splits)

lemma writer_task_frame:
  "chunks (snd (writer_task env w)) = chunks w \<and> diffs (snd (writer_task env w)) = diffs w \<and>
   batches (snd (writer_task env w)) = batches w \<and> logs (snd (writer_task env w)) = logs w"
proof -
  have "chunks (snd (writer_loop env (sent (batches w)) w)) = chunks w \<and>
        diffs (snd (writer_loop env (sent (batches w)) w)) = diffs w \<and>
        batches (snd (writer_loop env (sent (batches w)) w)) = batches w \<and>
        logs (snd (writer_loop env (sent (batches w)) w)) = logs w"
    by (rule writer_loop_frame)
  then show ?thesis
    by (cases "writer_loop env (sent (batches w)) w") (simp add: writer_task_def split: option.splits)
qed


lemma first_error_None: "first_error xs = None \<longleftrightarrow> (\<forall>x\<in>set xs. x = None)"
  by (induction xs rule: first_error.induct) auto

lemma errgroup_Wait_Returns:
  assumes "errgroup_Wait order rs = Returns e"
  shows "\<forall>r\<in>set rs. \<exists>x. r = Returns x"
proof
  fix r assume "r \<in> set rs"
  with assms have "r \<noteq> Panics" "r \<noteq> Blocks"
    by (auto simp: errgroup_Wait_def split: if_splits)
  then show "\<exists>x. r = Returns x" by (cases r) auto
qed

lemma errgroup_Wait_None:
  assumes "errgroup_Wait order rs = Returns None"
  shows "\<forall>r\<in>set rs. r = Returns None"
proof
  fix r assume r: "r \<in> set rs"
  then obtain i where i: "i < length rs" "rs ! i = r" by (auto simp: in_set_conv_nth)
  from assms have "first_error (map (\<lambda>i. result_error (rs ! i))
      (remdups (filter (\<lambda>i. i < length rs) order @ [0..<length rs]))) = None"
    by (auto simp: errgroup_Wait_def split: if_splits)
  then have "\<forall>j\<in>set (remdups (filter (\<lambda>i. i < length rs) order @ [0..<length rs])).
               result_error (rs ! j) = None"
    by (simp add: first_error_None)
  with i have "result_error r = None" by auto
  moreover from errgroup_Wait_Returns [OF assms] r obtain x where "r = Returns x" by blast
  ultimately show "r = Returns None" by (simp add: result_error_def)
qed

lemma processTable_tasks_channels:
  "\<exists>r1 r2 r3 r4 W.
     processTable_tasks cmd rl table env w = ([r1, r2, r3, r4], W) \<and>
     closes (chunks W) = (if rl \<noteq> None \<and> acquireChunker env = None then 1 else 0) \<and>
     closes (diffs W) = (if r2 = Returns None then 1 else 0) \<and>
     closes (batches W) = (case r3 of Returns r \<Rightarrow> 1 | Blocks \<Rightarrow> 0 | Panics \<Rightarrow> 0) \<and>
     ((\<exists>r. r2 = Returns r) \<longrightarrow> closes (chunks W) = 1) \<and>
     logs W = logs w @ [Infof ''start'']"
proof -
  define w0 where "w0 = w\<lparr>logs := logs w @ [Infof ''start''], updates := 0, deletes := 0,
    inserts := 0, chunkCount := 0, chunks := \<lparr>sent = [], closes = 0\<rparr>\<rparr>"
  obtain r1 w1 where c: "chunker_task rl env w0 = (r1, w1)" by (cases "chunker_task rl env w0")
  define w1' where "w1' = w1\<lparr>diffs := \<lparr>sent = [], closes = 0\<rparr>\<rparr>"
  obtain r2 w2 where d: "differ_task rl env w1' = (r2, w2)" by (cases "differ_task rl env w1'")
  define w2' where "w2' = w2\<lparr>batches := \<lparr>sent = [], closes = 0\<rparr>\<rparr>"
  obtain r3 w3 where b: "batcher_task cmd env w2' = (r3, w3)" by (cases "batcher_task cmd env w2'")
  obtain r4 w4 where wr: "writer_task env w3 = (r4, w4)" by (cases "writer_task env w3")
  have tasks: "processTable_tasks cmd rl table env w = ([r1, r2, r3, r4], w4)"
    by (simp add: processTable_tasks_def Let_def w0_def [symmetric] c w1'_def [symmetric] d
        w2'_def [symmetric] b wr)
  let ?acq = "rl \<noteq> None \<and> acquireChunker env = None"
  from chunker_task_chunks [of rl env w0] c
  have ch1: "chunks w1 = (if ?acq
      then chan_close (send_all (fst (generateTableChunks env)) \<lparr>sent = [], closes = 0\<rparr>)
      else \<lparr>sent = [], closes = 0\<rparr>)"
    by (simp add: w0_def)
  from chunker_task_frame [of rl env w0] c have lg1: "logs w1 = logs w @ [Infof ''start'']"
    by (simp add: w0_def)
  from differ_task_frame [of rl env w1'] d
  have f2: "chunks w2 = chunks w1" "logs w2 = logs w1" by (simp_all add: w1'_def)
  from differ_task_closes [of rl env w1'] d
  have d2: "closes (diffs w2) = (if r2 = Returns None then 1 else 0)" by (simp add: w1'_def)
  from batcher_task_frame [of cmd env w2'] b
  have f3: "chunks w3 = chunks w2" "diffs w3 = diffs w2" "logs w3 = logs w2"
    by (simp_all add: w2'_def)
  from batcher_task_closes [of cmd env w2'] b
  have b3: "closes (batches w3) = (case r3 of Returns r \<Rightarrow> 1 | Blocks \<Rightarrow> 0 | Panics \<Rightarrow> 0)"
    by (simp add: w2'_def split: outcome.splits)
  from writer_task_frame [of env w3] wr
  have f4: "chunks w4 = chunks w3" "diffs w4 = diffs w3" "batches w4 = batches w3" "logs w4 = logs w3"
    by simp_all
  have A: "closes (chunks w4) = (if ?acq then 1 else 0)"
    using f4(1) f3(1) f2(1) ch1 by (simp add: chan_close_def closes_send_all)
  have B: "closes (diffs w4) = (if r2 = Returns None then 1 else 0)"
    using f4(2) f3(2) d2 by simp
  have C: "closes (batches w4) = (case r3 of Returns r \<Rightarrow> 1 | Blocks \<Rightarrow> 0 | Panics \<Rightarrow> 0)"
    using f4(3) b3 by simp
  have D: "(\<exists>r. r2 = Returns r) \<longrightarrow> closes (chunks w4) = 1"
  proof
    assume "\<exists>r. r2 = Returns r"
    then obtain r where "r2 = Returns r" ..
    with d have "fst (differ_task rl env w1') = Returns r" by simp
    from differ_task_returns [OF this]
    have "sent (chunks w1) \<noteq> [] \<or> closes (chunks w1) \<noteq> 0" by (simp add: w1'_def)
    with ch1 have ?acq by (auto split: if_splits)
    with A show "closes (chunks w4) = 1" by simp
  qed
  have E: "logs w4 = logs w @ [Infof ''start'']"
    using f4(4) f3(3) f2(2) lg1 by simp
  from tasks A B C D E show ?thesis by blast
qed

lemma processTable_channels:
  "chunks (snd (processTable cmd rl table env w)) = chunks (snd (processTable_tasks cmd rl table env w)) \<and>
   diffs (snd (processTable cmd rl table env w)) = diffs (snd (processTable_tasks cmd rl table env w)) \<and>
   batches (snd (processTable cmd rl table env w)) = batches (snd (processTable_tasks cmd rl table env w))"
  by (cases "processTable_tasks cmd rl table env w")
     (simp add: processTable_def processTable_group_def processTable_finish_def Let_def
        split: outcome.splits option.splits)

lemma processTable_Returns:
  assumes "fst (processTable cmd rl table env w) = Returns r"
  shows "\<exists>e. fst (processTable_group cmd rl table env w) = Returns e \<and> (r = None \<longrightarrow> e = None)"
  using assms
  by (cases "processTable_group cmd rl table env w")
     (auto simp: processTable_def processTable_finish_def Let_def errors_WithStack_def
        split: outcome.splits option.splits)

text \<open>
  C6, as amended. In no run of \<open>processTable\<close> is a channel closed more than once. When
  \<open>processTable\<close> returns, with or without an error, \<open>chunks\<close> and \<open>batches\<close> have each been
  closed exactly once. \<open>diffs\<close> has been closed exactly once when \<open>processTable\<close> returns
  \<open>nil\<close>, and whenever the differ task (the second of the four) returned \<open>nil\<close>; it has not
  been closed when the differ task returned an error.
\<close>

theorem channels_closed_at_most_once:
  "closes (chunks (snd (processTable cmd readerLimiter table env w))) \<le> 1 \<and>
   closes (diffs (snd (processTable cmd readerLimiter table env w))) \<le> 1 \<and>
   closes (batches (snd (processTable cmd readerLimiter table env w))) \<le> 1 \<and>
   (\<forall>r. fst (processTable cmd readerLimiter table env w) = Returns r \<longrightarrow>
        closes (chunks (snd (processTable cmd readerLimiter table env w))) = 1 \<and>
        closes (batches (snd (processTable cmd readerLimiter table env w))) = 1) \<and>
   (fst (processTable cmd readerLimiter table env w) = Returns None \<longrightarrow>
        closes (diffs (snd (processTable cmd readerLimiter table env w))) = 1) \<and>
   (fst (processTable_tasks cmd readerLimiter table env w) ! 1 = Returns None \<longrightarrow>
        closes (diffs (snd (processTable cmd readerLimiter table env w))) = 1) \<and>
   (\<forall>err. fst (processTable_tasks cmd readerLimiter table env w) ! 1 = Returns (Some err) \<longrightarrow>
        closes (diffs (snd (processTable cmd readerLimiter table env w))) = 0)"
proof -
  obtain r1 r2 r3 r4 W where
    t: "processTable_tasks cmd readerLimiter table env w = ([r1, r2, r3, r4], W)"
    and A: "closes (chunks W) = (if readerLimiter \<noteq> None \<and> acquireChunker env = None then 1 else 0)"
    and B: "closes (diffs W) = (if r2 = Returns None then 1 else 0)"
    and C: "closes (batches W) = (case r3 of Returns r \<Rightarrow> 1 | Blocks \<Rightarrow> 0 | Panics \<Rightarrow> 0)"
    and D: "(\<exists>r. r2 = Returns r) \<longrightarrow> closes (chunks W) = 1"
    using processTable_tasks_channels [of cmd readerLimiter table env w] by blast
  let ?P = "processTable cmd readerLimiter table env w"
  from processTable_channels [of cmd readerLimiter table env w] t
  have ch: "chunks (snd ?P) = chunks W" "diffs (snd ?P) = diffs W" "batches (snd ?P) = batches W"
    by simp_all
  have g: "fst (processTable_group cmd readerLimiter table env w) =
             errgroup_Wait (finishOrder env) [r1, r2, r3, r4]"
    using t by (simp add: processTable_group_def)
  have le: "closes (chunks (snd ?P)) \<le> 1 \<and> closes (diffs (snd ?P)) \<le> 1 \<and>
            closes (batches (snd ?P)) \<le> 1"
    using A B C ch by (simp split: outcome.splits)
  have fin: "closes (chunks (snd ?P)) = 1 \<and> closes (batches (snd ?P)) = 1"
    if "fst ?P = Returns r" for r
  proof -
    from processTable_Returns [OF that] g obtain e where
      "errgroup_Wait (finishOrder env) [r1, r2, r3, r4] = Returns e" by auto
    from errgroup_Wait_Returns [OF this] obtain x2 x3 where "r2 = Returns x2" "r3 = Returns x3"
      by auto
    with D C ch show ?thesis by simp
  qed
  have succ: "closes (diffs (snd ?P)) = 1" if "fst ?P = Returns None"
  proof -
    from processTable_Returns [OF that] g
    have "errgroup_Wait (finishOrder env) [r1, r2, r3, r4] = Returns None" by auto
    from errgroup_Wait_None [OF this] have "r2 = Returns None" by simp
    with B ch show ?thesis by simp
  qed
  have dn: "closes (diffs (snd ?P)) = 1"
    if "fst (processTable_tasks cmd readerLimiter table env w) ! 1 = Returns None"
    using that t B ch by simp
  have de: "closes (diffs (snd ?P)) = 0"
    if "fst (processTable_tasks cmd readerLimiter table env w) ! 1 = Returns (Some err)" for err
    using that t B ch by simp
  from le fin succ dn de show ?thesis by blast
qed


theorem channels_closed_at_most_once_witness:
  "fst (processTable cmd0 (Some sem0) customers pure_insert world0) = Returns None \<and>
   fst (processTable_tasks cmd0 (Some sem0) customers pure_insert world0) ! 1 = Returns None \<and>
   closes (chunks (snd (processTable cmd0 (Some sem0) customers pure_insert world0))) = 1 \<and>
   closes (diffs (snd (processTable cmd0 (Some sem0) customers pure_insert world0))) = 1 \<and>
   closes (batches (snd (processTable cmd0 (Some sem0) customers pure_insert world0))) = 1 \<and>
   fst (processTable_tasks cmd0 (Some sem0) customers failed_read world0) ! 1 =
     Returns (Some (WithStack (Failure ''read failed''))) \<and>
   closes (diffs (snd (processTable cmd0 (Some sem0) customers failed_read world0))) = 0"
proof -
  have h1: "fst (processTable cmd0 (Some sem0) customers pure_insert world0) = Returns None"
    by (simp add: task_defs cmd0_def sem0_def pure_insert_def first_chunk_def last_chunk_def
        customer_def customers_def)
  have h2: "fst (processTable_tasks cmd0 (Some sem0) customers pure_insert world0) ! 1 = Returns None"
    by (simp add: task_defs cmd0_def sem0_def pure_insert_def first_chunk_def last_chunk_def
        customer_def customers_def)
  have h3: "fst (processTable_tasks cmd0 (Some sem0) customers failed_read world0) ! 1 =
              Returns (Some (WithStack (Failure ''read failed'')))"
    by (simp add: task_defs cmd0_def sem0_def failed_read_def first_chunk_def last_chunk_def)
  note a = channels_closed_at_most_once [where cmd = cmd0 and readerLimiter = "Some sem0" and table = customers
      and env = pure_insert and w = world0]
  note b = channels_closed_at_most_once [where cmd = cmd0 and readerLimiter = "Some sem0" and table = customers
      and env = failed_read and w = world0]
  from a h1 have c1: "closes (chunks (snd (processTable cmd0 (Some sem0) customers pure_insert world0))) = 1"
    and c3: "closes (batches (snd (processTable cmd0 (Some sem0) customers pure_insert world0))) = 1"
    by blast+
  from a h2 have c2: "closes (diffs (snd (processTable cmd0 (Some sem0) customers pure_insert world0))) = 1"
    by blast
  from b h3 have c4: "closes (diffs (snd (processTable cmd0 (Some sem0) customers failed_read world0))) = 0"
    by blast
  from h1 h2 c1 c2 c3 h3 c4 show ?thesis by (intro conjI)
qed

text \<open>
  C6 as stated fails: when \<open>diffChunk\<close> fails, the pipeline ends with that failure, all
  four tasks have returned, \<open>chunks\<close> and \<open>batches\<close> have been closed once, and \<open>diffs\<close> has
  never been closed.
\<close>

theorem diffs_left_open_on_failure_counterexample:
  "fst (processTable cmd0 (Some sem0) customers failed_read world0) =
     Returns (Some (WithStack (WithStack (Failure ''read failed'')))) \<and>
   closes (chunks (snd (processTable cmd0 (Some sem0) customers failed_read world0))) = 1 \<and>
   closes (diffs (snd (processTable cmd0 (Some sem0) customers failed_read world0))) = 0 \<and>
   closes (batches (snd (processTable cmd0 (Some sem0) customers failed_read world0))) = 1"
  by (simp add: task_defs cmd0_def sem0_def failed_read_def first_chunk_def last_chunk_def)





end
